theory Spec2Isabelle
  imports Main "HOL-Library.Word" "HOL-Library.List_Lexorder"
begin

unbundle bit_operations_syntax

section \<open>JavaScript strings\<close>

text \<open>
  A JavaScript string is a sequence of 16-bit code units. The default comparison of
  \<^verbatim>\<open>Array.prototype.sort\<close> orders strings lexicographically by code unit, a proper prefix
  first, which is the order of lists over an ordered element type.
\<close>

type_synonym jsstring = "16 word list"

definition js :: "string \<Rightarrow> jsstring" where
  "js s = map (\<lambda>c. of_nat (of_char c)) s"

text \<open>\<^verbatim>\<open>Array.prototype.join\<close>.\<close>

fun join :: "jsstring \<Rightarrow> jsstring list \<Rightarrow> jsstring" where
  "join sep [] = []"
| "join sep [x] = x"
| "join sep (x # y # ys) = x @ sep @ join sep (y # ys)"

text \<open>
  Writing a key of a \<^verbatim>\<open>Map\<close>, or of the browser's storage, kept as a list of entries
  in insertion order: an existing key keeps its place and gets the new value, a new key
  goes to the end.
\<close>

fun put :: "'a \<Rightarrow> 'b \<Rightarrow> ('a \<times> 'b) list \<Rightarrow> ('a \<times> 'b) list" where
  "put k v [] = [(k, v)]"
| "put k v ((k', v') # kvs) = (if k' = k then (k, v) # kvs else (k', v') # put k v kvs)"

text \<open>Whether an optional string is there and not empty, as a condition reads it.\<close>

definition truthy_str :: "jsstring option \<Rightarrow> bool" where
  "truthy_str s = (case s of None \<Rightarrow> False | Some x \<Rightarrow> x \<noteq> [])"

text \<open>\<^verbatim>\<open>String.prototype.trim\<close>: white space and line terminators off both ends.\<close>

definition isWhiteSpace :: "16 word \<Rightarrow> bool" where
  "isWhiteSpace c \<longleftrightarrow>
     (0x09 \<le> c \<and> c \<le> 0x0D) \<or> c = 0x20 \<or> c = 0xA0 \<or> c = 0x1680
     \<or> (0x2000 \<le> c \<and> c \<le> 0x200A) \<or> c = 0x2028 \<or> c = 0x2029 \<or> c = 0x202F
     \<or> c = 0x205F \<or> c = 0x3000 \<or> c = 0xFEFF"

definition trim :: "jsstring \<Rightarrow> jsstring" where
  "trim s = rev (dropWhile isWhiteSpace (rev (dropWhile isWhiteSpace s)))"

section \<open>services/gunService.ts: channel identifiers\<close>

text \<open>
  The part of the replicated graph that \<^verbatim>\<open>createChatLink\<close> writes: under
  \<^verbatim>\<open>users/<name>/chats\<close> a set to which \<^verbatim>\<open>.set(chatId)\<close> adds one entry per call.
  The module-level \<^verbatim>\<open>gun\<close> is \<^verbatim>\<open>null\<close> when no Gun library was found; it is
  passed here as an optional graph.
\<close>

record gun_graph =
  chats :: "jsstring \<Rightarrow> jsstring list"

definition chats_set :: "jsstring \<Rightarrow> jsstring \<Rightarrow> gun_graph \<Rightarrow> gun_graph" where
  "chats_set user chatId g = g\<lparr>chats := (chats g)(user := chats g user @ [chatId])\<rparr>"

text \<open>The character class \<^verbatim>\<open>[a-zA-Z0-9_-]\<close>.\<close>

definition isChatIdChar :: "16 word \<Rightarrow> bool" where
  "isChatIdChar c \<longleftrightarrow>
     (0x61 \<le> c \<and> c \<le> 0x7A) \<or> (0x41 \<le> c \<and> c \<le> 0x5A) \<or> (0x30 \<le> c \<and> c \<le> 0x39)
     \<or> c = 0x5F \<or> c = 0x2D"

text \<open>\<^verbatim>\<open>username.replace(/[^a-zA-Z0-9_-]/g, '')\<close>\<close>

definition sanitizeForChatId :: "jsstring \<Rightarrow> jsstring" where
  "sanitizeForChatId username = filter isChatIdChar username"

text \<open>
  \<^verbatim>\<open>createChatLink\<close> of services/gunService.ts. The result is the returned value
  (\<open>None\<close> for \<^verbatim>\<open>undefined\<close>) and the graph after the call. The two registrations go
  under the raw user names, the identifier is built from the sanitized ones.
\<close>

definition createChatLink ::
  "gun_graph option \<Rightarrow> jsstring \<Rightarrow> jsstring \<Rightarrow> jsstring option \<times> gun_graph option" where
  "createChatLink gun currentUser partnerUsername =
     (case gun of
        None \<Rightarrow> (None, None)
      | Some g \<Rightarrow>
          (let safeCurrent = sanitizeForChatId currentUser;
               safePartner = sanitizeForChatId partnerUsername
           in if safeCurrent = [] \<or> safePartner = [] then (None, Some g)
              else (let chatId = join (js '':'') (sort [safeCurrent, safePartner])
                    in (Some chatId,
                        Some (chats_set partnerUsername chatId
                               (chats_set currentUser chatId g))))))"

text \<open>
  The earlier \<^verbatim>\<open>createChatLink\<close> (the unnamed gunService module), which joins the raw
  names without sanitizing them.
\<close>

definition createChatLink_part001 ::
  "gun_graph option \<Rightarrow> jsstring \<Rightarrow> jsstring \<Rightarrow> jsstring option \<times> gun_graph option" where
  "createChatLink_part001 gun currentUser partnerUsername =
     (case gun of
        None \<Rightarrow> (None, None)
      | Some g \<Rightarrow>
          (let chatId = join (js '':'') (sort [currentUser, partnerUsername])
           in (Some chatId,
               Some (chats_set partnerUsername chatId (chats_set currentUser chatId g)))))"

text \<open>A user name drawn from the restricted character set: non-empty, every character in the class.\<close>

definition restricted :: "jsstring \<Rightarrow> bool" where
  "restricted u \<longleftrightarrow> u \<noteq> [] \<and> list_all isChatIdChar u"

section \<open>services/gunService.ts: directory lookup with bounded retry\<close>

text \<open>
  A JavaScript value as far as the lookup tells values apart: \<^verbatim>\<open>undefined\<close>, or a
  JSON value (\<open>JNull\<close> is \<^verbatim>\<open>null\<close>).
\<close>

datatype json =
    JUndefined
  | JNull
  | JBool bool
  | JNum int
  | JStr jsstring
  | JArr "json list"
  | JObj "(jsstring \<times> json) list"

text \<open>The truth value JavaScript gives a value in a condition.\<close>

fun truthy :: "json \<Rightarrow> bool" where
  "truthy JUndefined = False"
| "truthy JNull = False"
| "truthy (JBool b) = b"
| "truthy (JNum n) = (n \<noteq> 0)"
| "truthy (JStr s) = (s \<noteq> [])"
| "truthy (JArr xs) = True"
| "truthy (JObj kvs) = True"

text \<open>
  What one read \<^verbatim>\<open>gun.get('users').get(name).get('pubKey').once(cb)\<close> does: the callback
  runs after some milliseconds with a value, or it never runs, or the call throws.
\<close>

datatype reply = Reply nat json | Silent | Throws

text \<open>
  \<^verbatim>\<open>tryOnce\<close>: the read raced against a timer of
  \<^verbatim>\<open>Math.max(900, Math.floor(delayMs / 2))\<close> milliseconds; whichever comes first resolves
  the promise, the timer with \<^verbatim>\<open>undefined\<close>.
\<close>

definition tryOnce_timeout :: "nat \<Rightarrow> nat" where
  "tryOnce_timeout delayMs = max 900 (delayMs div 2)"

definition tryOnce :: "nat \<Rightarrow> reply \<Rightarrow> json" where
  "tryOnce delayMs r =
     (case r of
        Reply t res \<Rightarrow> if t < tryOnce_timeout delayMs then res else JUndefined
      | Silent \<Rightarrow> JUndefined
      | Throws \<Rightarrow> JUndefined)"

text \<open>\<^verbatim>\<open>res !== undefined && res !== null && res !== ''\<close>\<close>

definition nonEmpty :: "json \<Rightarrow> bool" where
  "nonEmpty res \<longleftrightarrow> res \<noteq> JUndefined \<and> res \<noteq> JNull \<and> res \<noteq> JStr []"

text \<open>
  The value returned for a non-empty read: \<^verbatim>\<open>JSON.parse(res)\<close> for a string, the string
  itself when parsing throws, and the value as it is otherwise. \<^verbatim>\<open>JSON.parse\<close> is a
  parameter, \<open>None\<close> standing for a thrown \<^verbatim>\<open>SyntaxError\<close>.
\<close>

definition decodePubKey :: "(jsstring \<Rightarrow> json option) \<Rightarrow> json \<Rightarrow> json" where
  "decodePubKey json_parse res =
     (case res of
        JStr s \<Rightarrow> (case json_parse s of Some j \<Rightarrow> j | None \<Rightarrow> res)
      | _ \<Rightarrow> res)"

text \<open>
  \<^verbatim>\<open>Math.round(delayMs * 1.2)\<close> on a whole number of milliseconds. The exact product is
  never within 0.1 of a half, so rounding the double gives the rounding of the exact value.
\<close>

definition grow :: "nat \<Rightarrow> nat" where
  "grow delayMs = min 2000 ((12 * delayMs + 5) div 10)"

text \<open>What the lookup did, in order: each read with the timeout it raced, each pause with its length.\<close>

datatype fetch_event = TryOnce nat | Sleep nat

text \<open>
  The loop \<^verbatim>\<open>for (let i = 0; i < retries; i++)\<close> of \<^verbatim>\<open>fetchPartnerPubKey\<close>; \<open>dir i\<close> is what
  the directory does on the read of round \<open>i\<close>. The result is the returned value and
  the events so far.
\<close>

function fetch_loop ::
  "(jsstring \<Rightarrow> json option) \<Rightarrow> (nat \<Rightarrow> reply) \<Rightarrow> nat \<Rightarrow> nat \<Rightarrow> nat \<Rightarrow> fetch_event list
     \<Rightarrow> json \<times> fetch_event list" where
  "fetch_loop json_parse dir retries i delayMs log =
     (if i < retries then
        (let res = tryOnce delayMs (dir i);
             log1 = log @ [TryOnce (tryOnce_timeout delayMs)]
         in if nonEmpty res then (decodePubKey json_parse res, log1)
            else fetch_loop json_parse dir retries (Suc i) (grow delayMs) (log1 @ [Sleep delayMs]))
      else (JNull, log))"
  by pat_completeness auto
termination
  by (relation "measure (\<lambda>(json_parse, dir, retries, i, delayMs, log). retries - i)") auto

text \<open>\<^verbatim>\<open>fetchPartnerPubKey\<close>; \<open>gun_present\<close> says that the module-level \<^verbatim>\<open>gun\<close> is not \<^verbatim>\<open>null\<close>.\<close>

definition fetchPartnerPubKey ::
  "bool \<Rightarrow> (jsstring \<Rightarrow> json option) \<Rightarrow> (nat \<Rightarrow> reply) \<Rightarrow> nat \<Rightarrow> nat \<Rightarrow> json \<times> fetch_event list" where
  "fetchPartnerPubKey gun_present json_parse dir retries delayMs =
     (if \<not> gun_present then (JNull, [])
      else fetch_loop json_parse dir retries 0 delayMs [])"

text \<open>The call with the default arguments \<^verbatim>\<open>retries = 5, delayMs = 700\<close>, as every caller makes it.\<close>

definition fetchPartnerPubKey_default ::
  "bool \<Rightarrow> (jsstring \<Rightarrow> json option) \<Rightarrow> (nat \<Rightarrow> reply) \<Rightarrow> json \<times> fetch_event list" where
  "fetchPartnerPubKey_default gun_present json_parse dir =
     fetchPartnerPubKey gun_present json_parse dir 5 700"

definition attempts :: "fetch_event list \<Rightarrow> nat" where
  "attempts log = length (filter (\<lambda>e. case e of TryOnce _ \<Rightarrow> True | Sleep _ \<Rightarrow> False) log)"

definition sleeps :: "fetch_event list \<Rightarrow> nat list" where
  "sleeps log = concat (map (\<lambda>e. case e of TryOnce _ \<Rightarrow> [] | Sleep d \<Rightarrow> [d]) log)"

text \<open>
  A read that gives a lookup with the default arguments nothing: no answer before the
  timer of 900 ms that every one of its reads is raced against, or an answer in time
  that is \<^verbatim>\<open>undefined\<close>, \<^verbatim>\<open>null\<close> or the empty string.
\<close>

definition empty_read :: "reply \<Rightarrow> bool" where
  "empty_read r =
     (case r of
        Reply t res \<Rightarrow> 900 \<le> t \<or> res = JUndefined \<or> res = JNull \<or> res = JStr []
      | Silent \<Rightarrow> True
      | Throws \<Rightarrow> True)"

text \<open>
  The pauses of a lookup with the default arguments, and all it does when no read gives
  a value.
\<close>

definition default_delays :: "nat list" where
  "default_delays = [700, 840, 1008, 1210, 1452]"

definition exhausted_log :: "fetch_event list" where
  "exhausted_log =
     [TryOnce 900, Sleep 700, TryOnce 900, Sleep 840, TryOnce 900, Sleep 1008,
      TryOnce 900, Sleep 1210, TryOnce 900, Sleep 1452]"

section \<open>services/cryptoService.ts: the cryptographic codec\<close>

type_synonym byte = "8 word"

datatype crypto_error = InvalidCharacterError | OperationError | FailedToDecrypt

subsection \<open>Base64: \<^verbatim>\<open>btoa\<close> and \<^verbatim>\<open>atob\<close>\<close>

text \<open>
  The two conversions are the browser's, not the repository's; they are written out
  here as their standards define them (RFC 4648 for the encoding, the forgiving-base64
  decoding of the WHATWG Infra standard for \<^verbatim>\<open>atob\<close>), on the numeric values of bytes
  and six-bit groups.
\<close>

definition b64char :: "nat \<Rightarrow> 16 word" where
  "b64char n =
     (if n < 26 then of_nat (65 + n)
      else if n < 52 then of_nat (97 + (n - 26))
      else if n < 62 then of_nat (48 + (n - 52))
      else if n = 62 then 0x2B
      else 0x2F)"

definition b64val :: "16 word \<Rightarrow> nat option" where
  "b64val ch =
     (let c = unat ch
      in if 65 \<le> c \<and> c \<le> 90 then Some (c - 65)
         else if 97 \<le> c \<and> c \<le> 122 then Some (c - 71)
         else if 48 \<le> c \<and> c \<le> 57 then Some (c + 4)
         else if c = 43 then Some 62
         else if c = 47 then Some 63
         else None)"

fun b64encode :: "nat list \<Rightarrow> jsstring" where
  "b64encode (x # y # z # rest) =
     [b64char (x div 4), b64char ((x mod 4) * 16 + y div 16),
      b64char ((y mod 16) * 4 + z div 64), b64char (z mod 64)] @ b64encode rest"
| "b64encode [x, y] =
     [b64char (x div 4), b64char ((x mod 4) * 16 + y div 16), b64char ((y mod 16) * 4), 0x3D]"
| "b64encode [x] = [b64char (x div 4), b64char ((x mod 4) * 16), 0x3D, 0x3D]"
| "b64encode [] = []"

text \<open>\<^verbatim>\<open>btoa\<close> throws on a character above U+00FF.\<close>

definition btoa :: "jsstring \<Rightarrow> crypto_error + jsstring" where
  "btoa s =
     (if list_all (\<lambda>c. c \<le> 0xFF) s then Inr (b64encode (map unat s))
      else Inl InvalidCharacterError)"

fun b64decode :: "nat list \<Rightarrow> nat list" where
  "b64decode (a # b # c # d # rest) =
     [a * 4 + b div 16, (b mod 16) * 16 + c div 4, (c mod 4) * 64 + d] @ b64decode rest"
| "b64decode [a, b, c] = [a * 4 + b div 16, (b mod 16) * 16 + c div 4]"
| "b64decode [a, b] = [a * 4 + b div 16]"
| "b64decode [a] = []"
| "b64decode [] = []"

definition isAsciiWhitespace :: "16 word \<Rightarrow> bool" where
  "isAsciiWhitespace c \<longleftrightarrow> c = 0x09 \<or> c = 0x0A \<or> c = 0x0C \<or> c = 0x0D \<or> c = 0x20"

text \<open>Removing one or two trailing \<^verbatim>\<open>=\<close>, done when the length is a multiple of four.\<close>

definition strip_padding :: "jsstring \<Rightarrow> jsstring" where
  "strip_padding d =
     (if d \<noteq> [] \<and> last d = 0x3D then
        (if butlast d \<noteq> [] \<and> last (butlast d) = 0x3D then butlast (butlast d) else butlast d)
      else d)"

definition atob :: "jsstring \<Rightarrow> crypto_error + jsstring" where
  "atob b64 =
     (let d = filter (\<lambda>c. \<not> isAsciiWhitespace c) b64;
          d' = (if length d mod 4 = 0 then strip_padding d else d)
      in if length d' mod 4 = 1 then Inl InvalidCharacterError
         else (case those (map b64val d') of
                 None \<Rightarrow> Inl InvalidCharacterError
               | Some sextets \<Rightarrow> Inr (map of_nat (b64decode sextets))))"

text \<open>
  \<^verbatim>\<open>arrayBufferToB64\<close>: the bytes as a binary string, through \<^verbatim>\<open>btoa\<close>.
  \<^verbatim>\<open>b64ToArrayBuffer\<close>: \<^verbatim>\<open>atob\<close>, then each character code stored into a
  \<^verbatim>\<open>Uint8Array\<close>.
\<close>

definition arrayBufferToB64 :: "byte list \<Rightarrow> crypto_error + jsstring" where
  "arrayBufferToB64 buffer = btoa (map ucast buffer)"

definition b64ToArrayBuffer :: "jsstring \<Rightarrow> crypto_error + byte list" where
  "b64ToArrayBuffer b64 =
     (case atob b64 of Inl e \<Rightarrow> Inl e | Inr bin \<Rightarrow> Inr (map ucast bin))"

subsection \<open>UTF-8: \<^verbatim>\<open>TextEncoder\<close> and \<^verbatim>\<open>TextDecoder\<close>\<close>

text \<open>
  Again the browser's: \<^verbatim>\<open>new TextEncoder().encode(s)\<close> and
  \<^verbatim>\<open>new TextDecoder().decode(buf)\<close> as the WHATWG Encoding standard defines them, with
  the decoder's defaults (UTF-8, not fatal, byte order mark not ignored). Code points are
  natural numbers.
\<close>

definition isLeadSurrogate :: "16 word \<Rightarrow> bool" where
  "isLeadSurrogate c \<longleftrightarrow> 0xD800 \<le> c \<and> c \<le> 0xDBFF"

definition isTrailSurrogate :: "16 word \<Rightarrow> bool" where
  "isTrailSurrogate c \<longleftrightarrow> 0xDC00 \<le> c \<and> c \<le> 0xDFFF"

text \<open>A string to its scalar values: a surrogate pair is one code point, a lone surrogate U+FFFD.\<close>

fun to_scalars :: "jsstring \<Rightarrow> nat list" where
  "to_scalars [] = []"
| "to_scalars [c] = [if isLeadSurrogate c \<or> isTrailSurrogate c then 0xFFFD else unat c]"
| "to_scalars (c # d # rest) =
     (if isLeadSurrogate c \<and> isTrailSurrogate d
      then (0x10000 + (unat c - 0xD800) * 0x400 + (unat d - 0xDC00)) # to_scalars rest
      else (if isLeadSurrogate c \<or> isTrailSurrogate c then 0xFFFD else unat c)
             # to_scalars (d # rest))"

definition utf8_encode_cp :: "nat \<Rightarrow> byte list" where
  "utf8_encode_cp cp =
     (if cp < 0x80 then [of_nat cp]
      else if cp < 0x800 then [of_nat (0xC0 + cp div 64), of_nat (0x80 + cp mod 64)]
      else if cp < 0x10000 then
        [of_nat (0xE0 + cp div 4096), of_nat (0x80 + (cp div 64) mod 64), of_nat (0x80 + cp mod 64)]
      else
        [of_nat (0xF0 + cp div 262144), of_nat (0x80 + (cp div 4096) mod 64),
         of_nat (0x80 + (cp div 64) mod 64), of_nat (0x80 + cp mod 64)])"

definition textToArrayBuffer :: "jsstring \<Rightarrow> byte list" where
  "textToArrayBuffer str = concat (map utf8_encode_cp (to_scalars str))"

text \<open>The state of the UTF-8 decoder.\<close>

record utf8_state =
  code_point :: nat
  bytes_seen :: nat
  bytes_needed :: nat
  lower_boundary :: nat
  upper_boundary :: nat

definition utf8_init :: utf8_state where
  "utf8_init = \<lparr>code_point = 0, bytes_seen = 0, bytes_needed = 0,
                 lower_boundary = 0x80, upper_boundary = 0xBF\<rparr>"

text \<open>A byte read while no bytes are needed: what is emitted, and the next state.\<close>

definition utf8_lead :: "nat \<Rightarrow> nat list \<times> utf8_state" where
  "utf8_lead b =
     (if b \<le> 0x7F then ([b], utf8_init)
      else if 0xC2 \<le> b \<and> b \<le> 0xDF then
        ([], utf8_init\<lparr>bytes_needed := 1, code_point := b mod 32\<rparr>)
      else if 0xE0 \<le> b \<and> b \<le> 0xEF then
        ([], utf8_init\<lparr>lower_boundary := (if b = 0xE0 then 0xA0 else 0x80),
                        upper_boundary := (if b = 0xED then 0x9F else 0xBF),
                        bytes_needed := 2, code_point := b mod 16\<rparr>)
      else if 0xF0 \<le> b \<and> b \<le> 0xF4 then
        ([], utf8_init\<lparr>lower_boundary := (if b = 0xF0 then 0x90 else 0x80),
                        upper_boundary := (if b = 0xF4 then 0x8F else 0xBF),
                        bytes_needed := 3, code_point := b mod 8\<rparr>)
      else ([0xFFFD], utf8_init))"

text \<open>A byte within the boundaries while bytes are needed.\<close>

definition utf8_cont :: "utf8_state \<Rightarrow> nat \<Rightarrow> nat list \<times> utf8_state" where
  "utf8_cont s b =
     (let cp = code_point s * 64 + b mod 64;
          seen = bytes_seen s + 1
      in if seen \<noteq> bytes_needed s then
           ([], s\<lparr>code_point := cp, bytes_seen := seen,
                  lower_boundary := 0x80, upper_boundary := 0xBF\<rparr>)
         else ([cp], utf8_init))"

text \<open>
  The decoder over the bytes. A byte outside the boundaries while bytes are needed emits
  U+FFFD and is read again as a first byte; the end of the input while bytes are needed
  emits U+FFFD.
\<close>

fun utf8_decode :: "utf8_state \<Rightarrow> byte list \<Rightarrow> nat list" where
  "utf8_decode s [] = (if bytes_needed s \<noteq> 0 then [0xFFFD] else [])"
| "utf8_decode s (w # bs) =
     (if bytes_needed s = 0 then
        fst (utf8_lead (unat w)) @ utf8_decode (snd (utf8_lead (unat w))) bs
      else if unat w < lower_boundary s \<or> upper_boundary s < unat w then
        0xFFFD # fst (utf8_lead (unat w)) @ utf8_decode (snd (utf8_lead (unat w))) bs
      else
        fst (utf8_cont s (unat w)) @ utf8_decode (snd (utf8_cont s (unat w))) bs)"

definition from_scalar :: "nat \<Rightarrow> jsstring" where
  "from_scalar cp =
     (if cp < 0x10000 then [of_nat cp]
      else [of_nat (0xD800 + (cp - 0x10000) div 0x400), of_nat (0xDC00 + (cp - 0x10000) mod 0x400)])"

text \<open>
  With \<^verbatim>\<open>ignoreBOM\<close> false, the first code point decoded is dropped when it is the byte
  order mark U+FEFF.
\<close>

fun drop_bom :: "nat list \<Rightarrow> nat list" where
  "drop_bom [] = []"
| "drop_bom (cp # cps) = (if cp = 0xFEFF then cps else cp # cps)"

definition arrayBufferToText :: "byte list \<Rightarrow> jsstring" where
  "arrayBufferToText buffer = concat (map from_scalar (drop_bom (utf8_decode utf8_init buffer)))"

text \<open>A Unicode scalar value: a code point that is not a surrogate.\<close>

definition isScalarValue :: "nat \<Rightarrow> bool" where
  "isScalarValue cp \<longleftrightarrow> cp < 0x110000 \<and> \<not> (0xD800 \<le> cp \<and> cp \<le> 0xDFFF)"

text \<open>\<^verbatim>\<open>String.prototype.isWellFormed\<close>: no lone surrogate.\<close>

fun isWellFormed :: "jsstring \<Rightarrow> bool" where
  "isWellFormed [] = True"
| "isWellFormed [c] = (\<not> isLeadSurrogate c \<and> \<not> isTrailSurrogate c)"
| "isWellFormed (c # d # rest) =
     (if isLeadSurrogate c then isTrailSurrogate d \<and> isWellFormed rest
      else \<not> isTrailSurrogate c \<and> isWellFormed (d # rest))"

subsection \<open>Authenticated encryption\<close>

text \<open>
  \<^verbatim>\<open>crypto.subtle.encrypt\<close> and \<^verbatim>\<open>crypto.subtle.decrypt\<close> with
  \<^verbatim>\<open>{ name: 'AES-GCM', iv }\<close> are the browser's and are taken as a parameter: from key,
  nonce and data, \<open>encrypt\<close> gives the ciphertext with its tag, and \<open>decrypt\<close> gives the
  plaintext, or \<open>None\<close> when it rejects with an \<^verbatim>\<open>OperationError\<close>.
\<close>

record 'k subtle =
  encrypt :: "'k \<Rightarrow> byte list \<Rightarrow> byte list \<Rightarrow> byte list"
  decrypt :: "'k \<Rightarrow> byte list \<Rightarrow> byte list \<Rightarrow> byte list option"

text \<open>What decryption owes to encryption: under the same key and nonce it gives the data back.\<close>

definition decrypts_own :: "'k subtle \<Rightarrow> bool" where
  "decrypts_own crypto \<longleftrightarrow> (\<forall>k iv p. decrypt crypto k iv (encrypt crypto k iv p) = Some p)"

text \<open>Bit \<open>i\<close> of a byte sequence flipped, bit 0 the lowest bit of the first byte.\<close>

fun flip_bit_at :: "nat \<Rightarrow> byte list \<Rightarrow> byte list" where
  "flip_bit_at i [] = []"
| "flip_bit_at i (b # bs) = (if i < 8 then (b XOR push_bit i 1) # bs else b # flip_bit_at (i - 8) bs)"

text \<open>
  \<^verbatim>\<open>encryptMessage\<close>; \<open>iv\<close> is what \<^verbatim>\<open>crypto.getRandomValues(new Uint8Array(12))\<close>
  gave.
\<close>

definition encryptMessage ::
  "'k subtle \<Rightarrow> 'k \<Rightarrow> byte list \<Rightarrow> jsstring \<Rightarrow> crypto_error + (jsstring \<times> jsstring)" where
  "encryptMessage crypto sharedKey iv plaintext =
     (let encodedText = textToArrayBuffer plaintext;
          ciphertext = encrypt crypto sharedKey iv encodedText
      in case arrayBufferToB64 ciphertext of
           Inl e \<Rightarrow> Inl e
         | Inr ct_b64 \<Rightarrow>
             (case arrayBufferToB64 iv of
                Inl e \<Rightarrow> Inl e
              | Inr iv_b64 \<Rightarrow> Inr (ct_b64, iv_b64)))"

text \<open>
  \<^verbatim>\<open>decryptMessage\<close> as the unnamed cryptoService module has it (the one Chat.tsx
  imports): an exception of \<^verbatim>\<open>atob\<close> or of the decryption goes to the caller as it is.
\<close>

definition decryptMessage_part002 ::
  "'k subtle \<Rightarrow> 'k \<Rightarrow> jsstring \<Rightarrow> jsstring \<Rightarrow> crypto_error + jsstring" where
  "decryptMessage_part002 crypto sharedKey ct_b64 iv_b64 =
     (case b64ToArrayBuffer iv_b64 of
        Inl e \<Rightarrow> Inl e
      | Inr iv \<Rightarrow>
          (case b64ToArrayBuffer ct_b64 of
             Inl e \<Rightarrow> Inl e
           | Inr ciphertext \<Rightarrow>
               (case decrypt crypto sharedKey iv ciphertext of
                  None \<Rightarrow> Inl OperationError
                | Some plain \<Rightarrow> Inr (arrayBufferToText plain))))"

text \<open>
  \<^verbatim>\<open>decryptMessage\<close> of services/cryptoService.ts: the same steps inside
  \<^verbatim>\<open>try\<close>, every exception replaced by \<^verbatim>\<open>new Error('Failed to decrypt message')\<close>.
\<close>

definition decryptMessage ::
  "'k subtle \<Rightarrow> 'k \<Rightarrow> jsstring \<Rightarrow> jsstring \<Rightarrow> crypto_error + jsstring" where
  "decryptMessage crypto sharedKey ct_b64 iv_b64 =
     (case decryptMessage_part002 crypto sharedKey ct_b64 iv_b64 of
        Inl e \<Rightarrow> Inl FailedToDecrypt
      | Inr text \<Rightarrow> Inr text)"

text \<open>\<^verbatim>\<open>decryptFile\<close>: the decrypted bytes with the MIME type of the \<^verbatim>\<open>Blob\<close>.\<close>

definition decryptFile ::
  "'k subtle \<Rightarrow> 'k \<Rightarrow> jsstring \<Rightarrow> jsstring \<Rightarrow> jsstring \<Rightarrow> crypto_error + (byte list \<times> jsstring)" where
  "decryptFile crypto sharedKey ct_b64 iv_b64 type =
     (case b64ToArrayBuffer iv_b64 of
        Inl e \<Rightarrow> Inl e
      | Inr iv \<Rightarrow>
          (case b64ToArrayBuffer ct_b64 of
             Inl e \<Rightarrow> Inl e
           | Inr ciphertext \<Rightarrow>
               (case decrypt crypto sharedKey iv ciphertext of
                  None \<Rightarrow> Inl OperationError
                | Some plain \<Rightarrow>
                    Inr (plain, if type = [] then js ''application/octet-stream'' else type))))"

text \<open>
  A stand-in for the provider, to run the definitions on: the key is one byte, the
  ciphertext is the plaintext followed by a one-byte tag, the exclusive or of the key and
  all bytes of nonce and plaintext; decryption recomputes the tag and rejects a mismatch.
\<close>

definition xor_tag :: "byte \<Rightarrow> byte list \<Rightarrow> byte list \<Rightarrow> byte" where
  "xor_tag k iv p = fold (XOR) (iv @ p) k"

definition toy_subtle :: "byte subtle" where
  "toy_subtle =
     \<lparr>encrypt = (\<lambda>k iv p. p @ [xor_tag k iv p]),
      decrypt = (\<lambda>k iv c. if c \<noteq> [] \<and> last c = xor_tag k iv (butlast c)
                           then Some (butlast c) else None)\<rparr>"

text \<open>A twelve-byte nonce to run the definitions on.\<close>

definition example_nonce :: "byte list" where
  "example_nonce = [1, 2, 3, 4, 5, 6, 7, 8, 9, 10, 11, 12]"

section \<open>JavaScript numbers and sorting with a comparator\<close>

text \<open>
  \<^verbatim>\<open>ToNumber\<close>, which the subtraction \<^verbatim>\<open>a.timestamp - b.timestamp\<close> applies to both
  operands; \<open>None\<close> is \<^verbatim>\<open>NaN\<close>. What the platform makes of a string, an array or an
  object is the parameter \<open>conv\<close>.
\<close>

definition ToNumber :: "(json \<Rightarrow> int option) \<Rightarrow> json \<Rightarrow> int option" where
  "ToNumber conv v =
     (case v of
        JUndefined \<Rightarrow> None
      | JNull \<Rightarrow> Some 0
      | JBool b \<Rightarrow> Some (if b then 1 else 0)
      | JNum n \<Rightarrow> Some n
      | _ \<Rightarrow> conv v)"

text \<open>
  \<^verbatim>\<open>Array.prototype.sort(comparefn)\<close>. The comparison of two elements is the number the
  comparator returns, \<^verbatim>\<open>NaN\<close> counting as \<open>+0\<close>; elements that compare equal keep their
  order. For a comparator that is not consistent the language leaves the order to the
  implementation; the sort here inserts each element, from the last to the first, before
  the first element of the sorted rest that it does not compare greater than.
\<close>

definition SortCompare :: "('a \<Rightarrow> 'a \<Rightarrow> int option) \<Rightarrow> 'a \<Rightarrow> 'a \<Rightarrow> int" where
  "SortCompare comparefn x y = (case comparefn x y of None \<Rightarrow> 0 | Some v \<Rightarrow> v)"

fun insert_sorted :: "('a \<Rightarrow> 'a \<Rightarrow> int option) \<Rightarrow> 'a \<Rightarrow> 'a list \<Rightarrow> 'a list" where
  "insert_sorted comparefn x [] = [x]"
| "insert_sorted comparefn x (y # ys) =
     (if SortCompare comparefn x y \<le> 0 then x # y # ys else y # insert_sorted comparefn x ys)"

definition array_sort :: "('a \<Rightarrow> 'a \<Rightarrow> int option) \<Rightarrow> 'a list \<Rightarrow> 'a list" where
  "array_sort comparefn xs = foldr (insert_sorted comparefn) xs []"

text \<open>
  A conversion under which no string, array or object is a number, to run the
  definitions on messages whose time stamps are none of these.
\<close>

definition example_conv :: "json \<Rightarrow> int option" where
  "example_conv v = None"

section \<open>Messages and contacts\<close>

text \<open>
  The fields a message carries in the graph, then the two shapes the components keep:
  \<^verbatim>\<open>ChatMessage\<close> of Chat.tsx (the shape \<^verbatim>\<open>saveMessagesToCache\<close> declares, \<open>key\<close> for
  \<^verbatim>\<open>_key\<close>, \<open>msg_text\<close> for \<^verbatim>\<open>text\<close>) and \<^verbatim>\<open>Message\<close> of ChatWindow.tsx
  (\<open>msg_id\<close> for \<^verbatim>\<open>id\<close>). An optional field that is absent is \<open>None\<close>. The time
  stamp is the value the feed delivers under \<^verbatim>\<open>timestamp\<close>, whatever it is
  (\<open>JUndefined\<close> when the entry has none): the handlers take \<^verbatim>\<open>msg: any\<close>. A number
  is a whole number of milliseconds, as \<^verbatim>\<open>Date.now()\<close> gives it.
\<close>

record gun_message =
  sender :: jsstring
  timestamp :: json
  ct :: "jsstring option"
  iv :: "jsstring option"
  msg_text :: "jsstring option"

record chat_message = gun_message +
  key :: "jsstring option"
  isFile :: "bool option"
  fname :: "jsstring option"
  ftype :: "jsstring option"
  fsize :: "nat option"
  ctFile :: "jsstring option"
  ivFile :: "jsstring option"

record message = gun_message +
  msg_id :: jsstring

record contact =
  username :: jsstring
  chatId :: jsstring

type_synonym JsonWebKey = json

text \<open>
  The comparator \<^verbatim>\<open>(a, b) => a.timestamp - b.timestamp\<close> that both components sort by:
  the difference of the two numbers, \<^verbatim>\<open>NaN\<close> when one of the time stamps is not a number.
\<close>

definition by_timestamp ::
  "(json \<Rightarrow> int option) \<Rightarrow> 'a gun_message_scheme \<Rightarrow> 'a gun_message_scheme \<Rightarrow> int option" where
  "by_timestamp conv a b =
     (case (ToNumber conv (timestamp a), ToNumber conv (timestamp b)) of
        (Some x, Some y) \<Rightarrow> Some (x - y)
      | _ \<Rightarrow> None)"

text \<open>
  A message whose time stamp is a number for the comparator, and that number; a list
  in ascending order of time stamp: no message is followed by one of a smaller time
  stamp (a pair that the comparator cannot compare is not constrained); and a list of
  messages with numbers for time stamps, in ascending order.
\<close>

definition numeric :: "(json \<Rightarrow> int option) \<Rightarrow> 'a gun_message_scheme \<Rightarrow> bool" where
  "numeric conv m \<longleftrightarrow> ToNumber conv (timestamp m) \<noteq> None"

definition stamp :: "(json \<Rightarrow> int option) \<Rightarrow> 'a gun_message_scheme \<Rightarrow> int" where
  "stamp conv m = (case ToNumber conv (timestamp m) of None \<Rightarrow> 0 | Some n \<Rightarrow> n)"


definition ordered :: "(json \<Rightarrow> int option) \<Rightarrow> 'a gun_message_scheme list \<Rightarrow> bool" where
  "ordered conv ms \<longleftrightarrow> list_all (numeric conv) ms \<and> sorted (map (stamp conv) ms)"

section \<open>services/userCache.ts: the local durable cache\<close>

text \<open>
  \<^verbatim>\<open>localStorage\<close> holds strings; every string this module writes is the
  \<^verbatim>\<open>JSON.stringify\<close> of a document, and every string it reads goes through
  \<^verbatim>\<open>JSON.parse\<close>. A stored value is modelled by the document it parses to: one of the
  three documents of this module, or \<open>Opaque\<close> for any other string, with its numeric
  \<^verbatim>\<open>updatedAt\<close> when it parses to an object that has one.
\<close>

datatype stored =
    UserDoc jsstring JsonWebKey jsstring nat
  | ContactsDoc "contact list" nat
  | MessagesDoc "chat_message list" nat
  | Opaque "nat option"

datatype storage_error = QuotaExceededError | OtherError

text \<open>
  The storage: its entries in the order \<^verbatim>\<open>Object.keys\<close> lists them, and \<open>admit\<close>, which
  says for the contents a \<^verbatim>\<open>setItem\<close> would produce whether the browser raises, and what.
\<close>

record storage =
  items :: "(jsstring \<times> stored) list"
  admit :: "(jsstring \<times> stored) list \<Rightarrow> storage_error option"

definition setItem :: "jsstring \<Rightarrow> stored \<Rightarrow> storage \<Rightarrow> storage_error + storage" where
  "setItem k v st =
     (case admit st (put k v (items st)) of
        Some e \<Rightarrow> Inl e
      | None \<Rightarrow> Inr (st\<lparr>items := put k v (items st)\<rparr>))"

definition getItem :: "jsstring \<Rightarrow> storage \<Rightarrow> stored option" where
  "getItem k st = map_of (items st) k"

definition removeItem :: "jsstring \<Rightarrow> storage \<Rightarrow> storage" where
  "removeItem k st = st\<lparr>items := filter (\<lambda>kv. fst kv \<noteq> k) (items st)\<rparr>"

definition storage_keys :: "storage \<Rightarrow> jsstring list" where
  "storage_keys st = map fst (items st)"

definition startsWith :: "jsstring \<Rightarrow> jsstring \<Rightarrow> bool" where
  "startsWith k p \<longleftrightarrow> take (length p) k = p"


definition CHATS_KEY_PREFIX :: jsstring where
  "CHATS_KEY_PREFIX = js ''dchat_chats_''"

definition MESSAGES_KEY_PREFIX :: jsstring where
  "MESSAGES_KEY_PREFIX = js ''dchat_messages_''"


text \<open>\<^verbatim>\<open>parsed.updatedAt\<close> of a stored value, when it is a number.\<close>

fun updatedAt :: "stored \<Rightarrow> nat option" where
  "updatedAt (UserDoc u p e t) = Some t"
| "updatedAt (ContactsDoc cs t) = Some t"
| "updatedAt (MessagesDoc ms t) = Some t"
| "updatedAt (Opaque t) = t"

text \<open>How a cache write ends: it returns, or it throws to its caller.\<close>

datatype outcome = Returned | Thrown storage_error



text \<open>\<^verbatim>\<open>saveContactsToCache\<close>: one write; every error is logged and dropped.\<close>

definition saveContactsToCache ::
  "jsstring \<Rightarrow> contact list \<Rightarrow> nat \<Rightarrow> storage option \<Rightarrow> outcome \<times> storage option" where
  "saveContactsToCache user contacts now storage =
     (case storage of
        None \<Rightarrow> (Returned, None)
      | Some st \<Rightarrow>
          (case setItem (CHATS_KEY_PREFIX @ user) (ContactsDoc contacts now) st of
             Inr st' \<Rightarrow> (Returned, Some st')
           | Inl e \<Rightarrow> (Returned, Some st)))"

text \<open>
  \<^verbatim>\<open>parsed.updatedAt || 0\<close> for the key of a message cache, \<open>0\<close> as well when the value
  is missing or does not parse.
\<close>

definition key_time :: "storage \<Rightarrow> jsstring \<Rightarrow> jsstring \<times> nat" where
  "key_time st k =
     (case getItem k st of
        None \<Rightarrow> (k, 0)
      | Some doc \<Rightarrow> (case updatedAt doc of None \<Rightarrow> (k, 0) | Some t \<Rightarrow> (k, t)))"

text \<open>
  \<^verbatim>\<open>saveMessagesToCache\<close>. On a quota error with more than ten message caches it removes
  the oldest fifth of them (at least one; \<^verbatim>\<open>Array.prototype.sort\<close> is stable) and writes
  again; a failure of the second write is logged and dropped, as is any other error.
  \<open>now\<close> and \<open>now_retry\<close> are the two readings of \<^verbatim>\<open>Date.now()\<close>.
\<close>

definition saveMessagesToCache ::
  "jsstring \<Rightarrow> chat_message list \<Rightarrow> nat \<Rightarrow> nat \<Rightarrow> storage option \<Rightarrow> outcome \<times> storage option" where
  "saveMessagesToCache chat msgs now now_retry storage =
     (case storage of
        None \<Rightarrow> (Returned, None)
      | Some st \<Rightarrow>
          (let cacheKey = MESSAGES_KEY_PREFIX @ chat in
           case setItem cacheKey (MessagesDoc msgs now) st of
             Inr st' \<Rightarrow> (Returned, Some st')
           | Inl e \<Rightarrow>
               if e = QuotaExceededError then
                 (let messageKeys = filter (\<lambda>k. startsWith k MESSAGES_KEY_PREFIX) (storage_keys st)
                  in if length messageKeys > 10 then
                       (let keyTimes = sort_key snd (map (key_time st) messageKeys);
                            toRemove = max 1 (length keyTimes div 5);
                            st1 = fold removeItem (map fst (take toRemove keyTimes)) st
                        in case setItem cacheKey (MessagesDoc msgs now_retry) st1 of
                             Inr st2 \<Rightarrow> (Returned, Some st2)
                           | Inl cleanupErr \<Rightarrow> (Returned, Some st1))
                     else (Returned, Some st))
               else (Returned, Some st)))"

text \<open>\<^verbatim>\<open>loadMessagesFromCache\<close> and \<^verbatim>\<open>loadContactsFromCache\<close>.\<close>

definition loadMessagesFromCache :: "jsstring \<Rightarrow> storage option \<Rightarrow> chat_message list option" where
  "loadMessagesFromCache chat storage =
     (case storage of
        None \<Rightarrow> None
      | Some st \<Rightarrow>
          (case getItem (MESSAGES_KEY_PREFIX @ chat) st of
             Some (MessagesDoc msgs t) \<Rightarrow> Some msgs
           | _ \<Rightarrow> None))"

definition loadContactsFromCache :: "jsstring \<Rightarrow> storage option \<Rightarrow> contact list option" where
  "loadContactsFromCache user storage =
     (case storage of
        None \<Rightarrow> None
      | Some st \<Rightarrow>
          (case getItem (CHATS_KEY_PREFIX @ user) st of
             Some (ContactsDoc cs t) \<Rightarrow> Some cs
           | _ \<Rightarrow> None))"


text \<open>A storage that holds at most \<open>n\<close> entries and raises the quota error beyond.\<close>

definition bounded_storage :: "nat \<Rightarrow> (jsstring \<times> stored) list \<Rightarrow> storage" where
  "bounded_storage n kvs =
     \<lparr>items = kvs, admit = (\<lambda>kvs'. if length kvs' > n then Some QuotaExceededError else None)\<rparr>"

section \<open>components/Chat.tsx: the message stream of the open channel\<close>

record chat_session =
  partner :: jsstring
  session_id :: jsstring

text \<open>
  The state of the \<^verbatim>\<open>Chat\<close> component that the handlers below read and write: its
  React state, the ref \<^verbatim>\<open>renderedMessageKeys\<close>, the channel whose feed has
  \<^verbatim>\<open>handleMessage\<close> registered (\<open>listening\<close>), the browser's storage, the graph, and the
  clock \<^verbatim>\<open>Date.now()\<close> reads.
\<close>

record chat_state =
  currentUser :: jsstring
  contacts :: "contact list"
  currentChat :: "chat_session option"
  messages :: "chat_message list"
  renderedMessageKeys :: "jsstring set"
  newChatUsername :: jsstring
  newChatStatus :: jsstring
  showNewChatModal :: bool
  mobileSidebarOpen :: bool
  listening :: "chat_session option"
  localStorage :: "storage option"
  gun :: "gun_graph option"
  now :: nat

text \<open>
  \<^verbatim>\<open>handleMessage\<close>, registered for the channel \<open>chat\<close> (the \<^verbatim>\<open>currentChat\<close> of the run
  of the effect that defined it). \<open>msg\<close> is \<open>None\<close> for a value that is not truthy. The
  function given to \<^verbatim>\<open>setMessages\<close> is applied at once.
\<close>

definition handleMessage ::
  "(json \<Rightarrow> int option) \<Rightarrow> chat_session \<Rightarrow> chat_message option \<Rightarrow> jsstring \<Rightarrow> chat_state
     \<Rightarrow> chat_state" where
  "handleMessage conv chat msg k st =
     (case msg of
        None \<Rightarrow> st
      | Some m \<Rightarrow>
          if k = [] \<or> k \<in> renderedMessageKeys st then st
          else
            (let st1 = st\<lparr>renderedMessageKeys := insert k (renderedMessageKeys st)\<rparr>;
                 fullMsg = m\<lparr>key := Some k\<rparr>;
                 prev = messages st1;
                 exists = list_ex (\<lambda>m'. key m' = Some k) prev
             in if exists then st1
                else
                  (let newState = array_sort (by_timestamp conv) (prev @ [fullMsg])
                   in st1\<lparr>messages := newState,
                          localStorage := snd (saveMessagesToCache (session_id chat) newState
                                                 (now st1) (now st1) (localStorage st1))\<rparr>)))"

text \<open>The keys of the cached messages that have one (\<^verbatim>\<open>if (msg._key)\<close>).\<close>

definition cached_keys :: "chat_message list \<Rightarrow> jsstring set" where
  "cached_keys msgs =
     set (concat (map (\<lambda>m. case key m of None \<Rightarrow> [] | Some k \<Rightarrow> if k \<noteq> [] then [k] else []) msgs))"

text \<open>
  The body of the effect on \<^verbatim>\<open>[currentChat]\<close>: clear the timeline and the keys, show
  the cached messages of the channel, register \<^verbatim>\<open>handleMessage\<close> on its feed.
\<close>

definition messagesEffect :: "chat_state \<Rightarrow> chat_state" where
  "messagesEffect st =
     (case currentChat st of
        None \<Rightarrow> st
      | Some chat \<Rightarrow>
          if gun st = None then st
          else
            (let st1 = st\<lparr>messages := [], renderedMessageKeys := {}\<rparr>;
                 cachedMessages = loadMessagesFromCache (session_id chat) (localStorage st1);
                 st2 = (case cachedMessages of
                          None \<Rightarrow> st1
                        | Some cached \<Rightarrow>
                            if length cached > 0
                            then st1\<lparr>messages := cached, renderedMessageKeys := cached_keys cached\<rparr>
                            else st1)
             in st2\<lparr>listening := Some chat\<rparr>))"

text \<open>Its cleanup, \<^verbatim>\<open>chatNode.map().off()\<close>.\<close>

definition messagesCleanup :: "chat_state \<Rightarrow> chat_state" where
  "messagesCleanup st = st\<lparr>listening := None\<rparr>"

text \<open>
  The effect on \<^verbatim>\<open>[messages, currentChat]\<close> that saves the messages. It runs with the
  values of the render that scheduled it, given here as arguments.
\<close>

definition persistEffect :: "chat_session option \<Rightarrow> chat_message list \<Rightarrow> chat_state \<Rightarrow> chat_state" where
  "persistEffect chat msgs st =
     (case chat of
        None \<Rightarrow> st
      | Some c \<Rightarrow>
          if length msgs > 0
          then st\<lparr>localStorage := snd (saveMessagesToCache (session_id c) msgs (now st) (now st)
                                         (localStorage st))\<rparr>
          else st)"

text \<open>
  What React does after \<^verbatim>\<open>setCurrentChat\<close>: the render with the new channel still has
  the previous messages; after it the cleanup of the previous run, the effect on the
  channel and the saving effect (with that render's values) run in this order; when the
  effect on the channel has set the messages, a second render follows and the saving
  effect runs again with the new messages.
\<close>

definition afterSetCurrentChat :: "chat_state \<Rightarrow> chat_state" where
  "afterSetCurrentChat st =
     (let rendered = messages st;
          st1 = messagesEffect (messagesCleanup st);
          st2 = persistEffect (currentChat st) rendered st1
      in if currentChat st = None \<or> gun st = None then st2
         else persistEffect (currentChat st2) (messages st2) st2)"

text \<open>Selecting a contact in the sidebar.\<close>

definition selectChat :: "contact \<Rightarrow> chat_state \<Rightarrow> chat_state" where
  "selectChat c st =
     afterSetCurrentChat
       (st\<lparr>currentChat := Some \<lparr>partner = username c, session_id = chatId c\<rparr>,
           mobileSidebarOpen := False\<rparr>)"

text \<open>
  An entry of the feed of channel \<open>chat\<close> reaching the component: the graph calls the
  handler registered for that feed, if there is one; when the messages changed, the
  render that follows runs the saving effect.
\<close>

definition feed ::
  "(json \<Rightarrow> int option) \<Rightarrow> jsstring \<Rightarrow> chat_message option \<Rightarrow> jsstring \<Rightarrow> chat_state \<Rightarrow> chat_state" where
  "feed conv chat msg k st =
     (case listening st of
        None \<Rightarrow> st
      | Some c \<Rightarrow>
          if session_id c \<noteq> chat then st
          else
            (let st1 = handleMessage conv c msg k st
             in if messages st1 = messages st then st1
                else persistEffect (currentChat st1) (messages st1) st1))"

datatype chat_event =
    SelectChat contact
  | Feed jsstring "chat_message option" jsstring
  | ContactsSaved "contact list"
  | Tick nat

fun chat_step :: "(json \<Rightarrow> int option) \<Rightarrow> chat_state \<Rightarrow> chat_event \<Rightarrow> chat_state" where
  "chat_step conv st (SelectChat c) = selectChat c st"
| "chat_step conv st (Feed chat msg k) = feed conv chat msg k st"
| "chat_step conv st (ContactsSaved cs) =
     st\<lparr>localStorage := snd (saveContactsToCache (currentUser st) cs (now st) (localStorage st))\<rparr>"
| "chat_step conv st (Tick n) = st\<lparr>now := now st + n\<rparr>"

definition chat_run :: "(json \<Rightarrow> int option) \<Rightarrow> chat_state \<Rightarrow> chat_event list \<Rightarrow> chat_state" where
  "chat_run conv st evs = foldl (chat_step conv) st evs"

text \<open>The component as mounted for \<open>user\<close>, before any channel is open.\<close>

definition chat_mounted :: "jsstring \<Rightarrow> storage option \<Rightarrow> gun_graph option \<Rightarrow> nat \<Rightarrow> chat_state" where
  "chat_mounted user storage g t =
     \<lparr>currentUser = user, contacts = [], currentChat = None, messages = [],
      renderedMessageKeys = {}, newChatUsername = [], newChatStatus = [],
      showNewChatModal = False, mobileSidebarOpen = True, listening = None,
      localStorage = storage, gun = g, now = t\<rparr>"

subsection \<open>Starting a chat\<close>

text \<open>
  \<^verbatim>\<open>handleNewChatSubmit\<close>, from the submitted form to the last state it sets; \<open>dir\<close> is
  what the directory does on each read of the lookup.
\<close>

definition handleNewChatSubmit ::
  "(jsstring \<Rightarrow> json option) \<Rightarrow> (nat \<Rightarrow> reply) \<Rightarrow> chat_state \<Rightarrow> chat_state" where
  "handleNewChatSubmit json_parse dir st =
     (let trimmedUsername = trim (newChatUsername st)
      in if trimmedUsername = [] then st\<lparr>newChatStatus := js ''Please enter a username.''\<rparr>
         else if trimmedUsername = currentUser st
           then st\<lparr>newChatStatus := js ''You can't chat with yourself.''\<rparr>
         else if \<not> restricted trimmedUsername
           then st\<lparr>newChatStatus := js ''Invalid username format.''\<rparr>
         else
           (let pubKey = fst (fetchPartnerPubKey_default (gun st \<noteq> None) json_parse dir)
            in if \<not> truthy pubKey
               then st\<lparr>newChatStatus := js ''User not found. Please check the username and try again.''\<rparr>
               else
                 (case createChatLink (gun st) (currentUser st) trimmedUsername of
                    (None, g) \<Rightarrow>
                      st\<lparr>gun := g, newChatStatus := js ''Failed to create chat. Please try again.''\<rparr>
                  | (Some cid, g) \<Rightarrow>
                      (let prev = contacts st;
                           st1 = st\<lparr>gun := g\<rparr>;
                           st2 = (if list_ex (\<lambda>c. username c = trimmedUsername) prev then st1
                                  else
                                    (let updated = \<lparr>username = trimmedUsername, chatId = cid\<rparr> # prev
                                     in st1\<lparr>contacts := updated,
                                            localStorage := snd (saveContactsToCache (currentUser st1)
                                                                   updated (now st1) (localStorage st1))\<rparr>))
                       in st2\<lparr>currentChat := Some \<lparr>partner = trimmedUsername, session_id = cid\<rparr>,
                              showNewChatModal := False, newChatUsername := [],
                              newChatStatus := [], mobileSidebarOpen := False\<rparr>))))"

subsection \<open>Rendering one message\<close>

text \<open>
  What \<^verbatim>\<open>MessageItem\<close> shows once its effect has run: the text it has set, if any, and
  the decrypted file, if any. \<open>getSharedKey\<close> gives the key for a partner, or fails; any
  exception in the effect sets the text to the sentinel.
\<close>

record message_view =
  decryptedText :: "jsstring option"
  fileUrl :: "(byte list \<times> jsstring) option"

definition decryption_failed :: jsstring where
  "decryption_failed = [0xD83D, 0xDD12] @ js '' [Decryption Failed]''"

definition or_else :: "jsstring option \<Rightarrow> jsstring option \<Rightarrow> jsstring option" where
  "or_else a b = (if truthy_str a then a else b)"

definition MessageItem ::
  "'k subtle \<Rightarrow> (jsstring \<Rightarrow> 'k option) \<Rightarrow> chat_message \<Rightarrow> jsstring \<Rightarrow> jsstring \<Rightarrow> message_view" where
  "MessageItem crypto getSharedKey msg user partner' =
     (let isMe = (sender msg = user);
          initial = \<lparr>decryptedText = None, fileUrl = None\<rparr>;
          failed = initial\<lparr>decryptedText := Some decryption_failed\<rparr>;
          partnerForKey = (if isMe then partner' else sender msg)
      in if isFile msg = Some True then
           (case getSharedKey partnerForKey of
              None \<Rightarrow> failed
            | Some sharedKey \<Rightarrow>
                (case (or_else (ctFile msg) (ct msg), or_else (ivFile msg) (iv msg)) of
                   (Some c, Some i) \<Rightarrow>
                     if c \<noteq> [] \<and> i \<noteq> [] then
                       (case decryptFile crypto sharedKey c i
                               (case ftype msg of None \<Rightarrow> [] | Some t \<Rightarrow> t) of
                          Inl e \<Rightarrow> failed
                        | Inr blob \<Rightarrow> initial\<lparr>fileUrl := Some blob\<rparr>)
                     else initial
                 | _ \<Rightarrow> initial))
         else if isMe \<and> truthy_str (msg_text msg) then initial\<lparr>decryptedText := msg_text msg\<rparr>
         else
           (case getSharedKey partnerForKey of
              None \<Rightarrow> failed
            | Some sharedKey \<Rightarrow>
                (case (ct msg, iv msg) of
                   (Some c, Some i) \<Rightarrow>
                     if c \<noteq> [] \<and> i \<noteq> [] then
                       (case decryptMessage_part002 crypto sharedKey c i of
                          Inl e \<Rightarrow> failed
                        | Inr text \<Rightarrow> initial\<lparr>decryptedText := Some text\<rparr>)
                     else initial
                 | _ \<Rightarrow> initial)))"

subsection \<open>What the timeline and the cache are to satisfy\<close>

text \<open>
  A cache in which every message list has the property \<open>P\<close>.
\<close>

definition cache_all :: "(chat_message list \<Rightarrow> bool) \<Rightarrow> storage option \<Rightarrow> bool" where
  "cache_all P storage =
     (case storage of
        None \<Rightarrow> True
      | Some st \<Rightarrow>
          list_all (\<lambda>kv. case snd kv of MessagesDoc ms t \<Rightarrow> P ms | _ \<Rightarrow> True) (items st))"

text \<open>
  For one message under each key: a cache in which no message list has two entries
  under the same key; and the state of the component in which the timeline is such a
  list, every key marked as rendered is the key of a message of the timeline, and the
  cache is as said.
\<close>

definition cache_ok :: "storage option \<Rightarrow> bool" where
  "cache_ok storage = cache_all (\<lambda>ms. distinct (map key ms)) storage"

definition chat_inv :: "chat_state \<Rightarrow> bool" where
  "chat_inv st \<longleftrightarrow>
     distinct (map key (messages st))
     \<and> (\<forall>k\<in>renderedMessageKeys st. Some k \<in> set (map key (messages st)))
     \<and> cache_ok (localStorage st)"




text \<open>A message with the given value for a time stamp, to run the definitions on.\<close>

definition example_entry :: "json \<Rightarrow> chat_message" where
  "example_entry t =
     \<lparr>sender = js ''bob'', timestamp = t, ct = None, iv = None, msg_text = None,
      key = None, isFile = None, fname = None, ftype = None, fsize = None,
      ctFile = None, ivFile = None\<rparr>"

text \<open>
  The component of "alice" with the channel of "bob" open: without a cache, and with a
  cache that holds one message of the channel.
\<close>

definition example_bob :: contact where
  "example_bob = \<lparr>username = js ''bob'', chatId = js ''alice:bob''\<rparr>"

definition example_cache :: storage where
  "example_cache =
     bounded_storage 20
       [(MESSAGES_KEY_PREFIX @ js ''alice:bob'',
         MessagesDoc [(example_entry (JNum 200))\<lparr>key := Some (js ''k0'')\<rparr>] 0)]"

definition example_chat :: "storage option \<Rightarrow> chat_state" where
  "example_chat storage =
     selectChat example_bob (chat_mounted (js ''alice'') storage (Some \<lparr>chats = (\<lambda>u. [])\<rparr>) 0)"

section \<open>components/ChatWindow.tsx: the message stream of the open contact\<close>

text \<open>
  The state of \<^verbatim>\<open>ChatWindow\<close>: the props and React state that the effect on
  \<^verbatim>\<open>[contact, sharedKey, user.username]\<close> reads and writes. Every run of that effect
  that subscribes creates its own \<^verbatim>\<open>messageMap\<close>; \<open>messageMaps\<close> holds them by the
  number of the run, \<open>active\<close> is the run whose listener is registered. A callback that
  is waiting for \<^verbatim>\<open>await cryptoService.decryptMessage(...)\<close> is in \<open>pending\<close>, with what
  its closure holds: the run, the shared key, the user name, the message and its two
  encrypted fields.
\<close>

record 'k pending_callback =
  p_run :: nat
  p_sharedKey :: 'k
  p_username :: jsstring
  p_msgData :: message
  p_ct :: jsstring
  p_iv :: jsstring

record 'k window_state =
  w_username :: jsstring
  w_contact :: "contact option"
  w_sharedKey :: "'k option"
  w_messages :: "message list"
  messageMaps :: "nat \<Rightarrow> (jsstring \<times> message) list"
  active :: "nat option"
  runs :: nat
  pending :: "'k pending_callback list"

definition failed_to_decrypt :: jsstring where
  "failed_to_decrypt = js ''[Failed to decrypt]''"

text \<open>
  The end of the callback, from \<^verbatim>\<open>const finalMessage\<close> on: store the message under
  its id and set the messages to the values of the map, sorted by time stamp.
\<close>

definition callback_finish ::
  "(json \<Rightarrow> int option) \<Rightarrow> nat \<Rightarrow> message \<Rightarrow> jsstring \<Rightarrow> 'k window_state \<Rightarrow> 'k window_state" where
  "callback_finish conv run msgData decrypted st =
     (let finalMessage = msgData\<lparr>msg_text := Some decrypted\<rparr>;
          messageMap = put (msg_id msgData) finalMessage (messageMaps st run);
          sortedMessages = array_sort (by_timestamp conv) (map snd messageMap)
      in st\<lparr>messageMaps := (messageMaps st)(run := messageMap), w_messages := sortedMessages\<rparr>)"

text \<open>
  The branch \<^verbatim>\<open>else if (msgData.text && msgData.sender === user.username)\<close>: the text
  the sender stored, for the user's own message; \<^verbatim>\<open>decryptedText\<close> stays empty otherwise.
\<close>

definition own_text :: "jsstring \<Rightarrow> message \<Rightarrow> jsstring" where
  "own_text user msgData =
     (case msg_text msgData of
        None \<Rightarrow> []
      | Some t \<Rightarrow> if t \<noteq> [] \<and> sender msgData = user then t else [])"

text \<open>
  The callback up to its \<^verbatim>\<open>await\<close>: a known id returns; a message with both
  encrypted fields waits for the decryption; any other message finishes at once, with
  the sender's own text when the sender is the user and the empty text otherwise.
\<close>

definition callback_start ::
  "(json \<Rightarrow> int option) \<Rightarrow> nat \<Rightarrow> 'k \<Rightarrow> jsstring \<Rightarrow> message \<Rightarrow> 'k window_state \<Rightarrow> 'k window_state" where
  "callback_start conv run sharedKey user msgData st =
     (if msg_id msgData \<in> fst ` set (messageMaps st run) then st
      else
        (case (ct msgData, iv msgData) of
           (Some c, Some i) \<Rightarrow>
             if c \<noteq> [] \<and> i \<noteq> [] then
               st\<lparr>pending := pending st @
                     [\<lparr>p_run = run, p_sharedKey = sharedKey, p_username = user,
                       p_msgData = msgData, p_ct = c, p_iv = i\<rparr>]\<rparr>
             else callback_finish conv run msgData (own_text user msgData) st
         | _ \<Rightarrow> callback_finish conv run msgData (own_text user msgData) st))"

text \<open>The callback after its \<^verbatim>\<open>await\<close>: the decrypted text, or the sentinel when decryption threw.\<close>

definition callback_resume ::
  "'k subtle \<Rightarrow> (json \<Rightarrow> int option) \<Rightarrow> 'k pending_callback \<Rightarrow> 'k window_state \<Rightarrow> 'k window_state" where
  "callback_resume crypto conv p st =
     callback_finish conv (p_run p) (p_msgData p)
       (case decryptMessage crypto (p_sharedKey p) (p_ct p) (p_iv p) of
          Inl e \<Rightarrow> failed_to_decrypt
        | Inr text \<Rightarrow> text) st"

text \<open>
  The effect itself, run again whenever the contact or the key changed: the cleanup of
  the previous run unregisters its listener; then, without contact or key, the messages
  are cleared, and otherwise a new map is made and a listener registered on the
  contact's feed.
\<close>

definition windowEffect :: "'k window_state \<Rightarrow> 'k window_state" where
  "windowEffect st =
     (let st1 = st\<lparr>active := None\<rparr>
      in if w_contact st1 = None \<or> w_sharedKey st1 = None then st1\<lparr>w_messages := []\<rparr>
         else st1\<lparr>messageMaps := (messageMaps st1)(runs st1 := []),
                  active := Some (runs st1), runs := Suc (runs st1)\<rparr>)"

text \<open>
  What can happen to the component: the parent passes another contact; the key derived
  for the contact is set; the feed that the active listener is registered on delivers
  an entry (\<^verbatim>\<open>listenForMessages\<close> passes on those with a sender and a time stamp, with
  the entry's key as \<^verbatim>\<open>id\<close>); a waiting decryption comes back.
\<close>

datatype 'k window_event =
    SetContact "contact option"
  | SetSharedKey 'k
  | Deliver "message option" jsstring
  | Resume nat

fun window_step ::
  "'k subtle \<Rightarrow> (json \<Rightarrow> int option) \<Rightarrow> 'k window_state \<Rightarrow> 'k window_event \<Rightarrow> 'k window_state" where
  "window_step crypto conv st (SetContact c) = windowEffect (st\<lparr>w_contact := c\<rparr>)"
| "window_step crypto conv st (SetSharedKey k) = windowEffect (st\<lparr>w_sharedKey := Some k\<rparr>)"
| "window_step crypto conv st (Deliver msg k) =
     (case (active st, w_sharedKey st, msg) of
        (Some run, Some sharedKey, Some m) \<Rightarrow>
          if sender m \<noteq> [] \<and> truthy (timestamp m)
          then callback_start conv run sharedKey (w_username st) (m\<lparr>msg_id := k\<rparr>) st
          else st
      | _ \<Rightarrow> st)"
| "window_step crypto conv st (Resume n) =
     (if n < length (pending st)
      then callback_resume crypto conv (pending st ! n)
             (st\<lparr>pending := take n (pending st) @ drop (Suc n) (pending st)\<rparr>)
      else st)"

definition window_run ::
  "'k subtle \<Rightarrow> (json \<Rightarrow> int option) \<Rightarrow> 'k window_state \<Rightarrow> 'k window_event list \<Rightarrow> 'k window_state" where
  "window_run crypto conv st evs = foldl (window_step crypto conv) st evs"

definition window_mounted :: "jsstring \<Rightarrow> 'k window_state" where
  "window_mounted user =
     \<lparr>w_username = user, w_contact = None, w_sharedKey = None, w_messages = [],
      messageMaps = (\<lambda>run. []), active = None, runs = 0, pending = []\<rparr>"

text \<open>
  Two messages from "bob" to run the definitions on, as \<^verbatim>\<open>ChatWindow\<close> and as
  \<^verbatim>\<open>Chat\<close> hold them, with the ciphertext and nonce given.
\<close>

definition example_message :: "jsstring \<Rightarrow> jsstring \<Rightarrow> message" where
  "example_message c i =
     \<lparr>sender = js ''bob'', timestamp = JNum 100, ct = Some c, iv = Some i, msg_text = None,
      msg_id = js ''k1''\<rparr>"

definition example_chat_message :: "jsstring \<Rightarrow> jsstring \<Rightarrow> chat_message" where
  "example_chat_message c i =
     \<lparr>sender = js ''bob'', timestamp = JNum 100, ct = Some c, iv = Some i, msg_text = None,
      key = Some (js ''k1''), isFile = None, fname = None, ftype = None, fsize = None,
      ctFile = None, ivFile = None\<rparr>"

definition example_pending :: "jsstring \<Rightarrow> jsstring \<Rightarrow> byte pending_callback" where
  "example_pending c i =
     \<lparr>p_run = 0, p_sharedKey = 7, p_username = js ''alice'', p_msgData = example_message c i,
      p_ct = c, p_iv = i\<rparr>"

text \<open>The window of "alice" with the contact "bob" open and the key set.\<close>

definition example_window :: "byte window_state" where
  "example_window =
     window_run toy_subtle example_conv (window_mounted (js ''alice''))
       [SetContact (Some \<lparr>username = js ''bob'', chatId = js ''alice:bob''\<rparr>), SetSharedKey 7]"


subsection \<open>What the maps and the messages of the window are to satisfy\<close>

text \<open>
  For one message under each id: every map holds each id once, with a message of that
  id under it, and the messages shown have no two entries of the same id.
\<close>

definition window_inv :: "'k window_state \<Rightarrow> bool" where
  "window_inv st \<longleftrightarrow>
     (\<forall>run. distinct (map fst (messageMaps st run))
            \<and> list_all (\<lambda>km. msg_id (snd km) = fst km) (messageMaps st run))
     \<and> distinct (map msg_id (w_messages st))"

text \<open>
  For the order: the messages of every map and of every waiting callback have numbers
  for time stamps, and the messages shown have too and are in ascending order; and an
  event that brings no message without such a time stamp.
\<close>

definition window_ordered :: "(json \<Rightarrow> int option) \<Rightarrow> 'k window_state \<Rightarrow> bool" where
  "window_ordered conv st \<longleftrightarrow>
     (\<forall>run. list_all (\<lambda>km. numeric conv (snd km)) (messageMaps st run))
     \<and> list_all (\<lambda>p. numeric conv (p_msgData p)) (pending st)
     \<and> ordered conv (w_messages st)"


text \<open>
  A message without encrypted fields, with the given value for a time stamp, to run the
  definitions on.
\<close>

definition example_plain :: "json \<Rightarrow> message" where
  "example_plain t =
     \<lparr>sender = js ''bob'', timestamp = t, ct = None, iv = None, msg_text = None, msg_id = []\<rparr>"

text \<open>Another contact of "alice".\<close>

definition example_carol :: contact where
  "example_carol = \<lparr>username = js ''carol'', chatId = js ''alice:carol''\<rparr>"
section \<open>Channel identifiers: proofs\<close>

lemma colon_not_chat_char: "\<not> isChatIdChar 0x3A"
  by (simp add: isChatIdChar_def)

lemma js_colon: "js '':'' = [0x3A]"
  by (simp add: js_def)

lemma sort_pair: "sort [a, b] = (if a \<le> b then [a, b] else [b, a])"
  by simp

lemma join_pair: "join (js '':'') [a, b] = a @ 0x3A # b"
  by (simp add: js_colon)

lemma sanitize_restricted: "restricted u \<Longrightarrow> sanitizeForChatId u = u"
  by (simp add: restricted_def sanitizeForChatId_def list_all_iff)

lemma restricted_no_colon: "restricted u \<Longrightarrow> 0x3A \<notin> set u"
  using colon_not_chat_char by (auto simp: restricted_def list_all_iff)

lemma split_at_separator:
  "c \<notin> set x \<Longrightarrow> c \<notin> set x' \<Longrightarrow> x @ c # y = x' @ c # y' \<Longrightarrow> x = x' \<and> y = y'"
proof (induction x arbitrary: x')
  case Nil
  then show ?case by (cases x') auto
next
  case (Cons a x)
  then show ?case by (cases x') auto
qed

lemma sorted_join_commute:
  "join (js '':'') (sort [a, b]) = join (js '':'') (sort [b, a :: jsstring])"
proof (cases "a = b")
  case True
  then show ?thesis by simp
next
  case False
  then show ?thesis
    by (cases "a \<le> b") (auto simp: js_colon)
qed

lemma sorted_join_inj:
  assumes "0x3A \<notin> set a" "0x3A \<notin> set b" "0x3A \<notin> set c" "0x3A \<notin> set d"
    and "join (js '':'') (sort [a, b]) = join (js '':'') (sort [c, d :: jsstring])"
  shows "{a, b} = {c, d}"
proof -
  obtain x y where xy: "sort [a, b] = [x, y]" "{x, y} = {a, b}"
    by (cases "a \<le> b") auto
  obtain x' y' where xy': "sort [c, d] = [x', y']" "{x', y'} = {c, d}"
    by (cases "c \<le> d") auto
  from xy(2) assms(1,2) have nx: "0x3A \<notin> set x" by (auto simp: doubleton_eq_iff)
  from xy'(2) assms(3,4) have nx': "0x3A \<notin> set x'" by (auto simp: doubleton_eq_iff)
  from assms(5) xy(1) xy'(1) have "x @ 0x3A # y = x' @ 0x3A # y'"
    by (simp only: join_pair)
  with nx nx' have "x = x' \<and> y = y'" by (rule split_at_separator)
  with xy(2) xy'(2) show ?thesis by auto
qed

lemma createChatLink_restricted:
  "restricted a \<Longrightarrow> restricted b \<Longrightarrow>
   fst (createChatLink (Some g) a b) = Some (join (js '':'') (sort [a, b]))"
  by (simp add: createChatLink_def sanitize_restricted Let_def restricted_def)

lemma createChatLink_part001_id:
  "fst (createChatLink_part001 (Some g) a b) = Some (join (js '':'') (sort [a, b]))"
  by (simp add: createChatLink_part001_def Let_def)

text \<open>
  C9. For user names \<open>a\<close>, \<open>b\<close>, \<open>c\<close>, \<open>d\<close> of the restricted character set, the
  identifier that \<^verbatim>\<open>createChatLink\<close> returns is the same for \<open>(a, b)\<close> and \<open>(b, a)\<close>, and
  two calls that return the same identifier were given the same unordered pair. Both
  versions of the function (with and without sanitizing) agree on this.
\<close>

theorem channel_id_commutative_collision_free:
  assumes "restricted a" "restricted b" "restricted c" "restricted d"
  shows "fst (createChatLink (Some g) a b) = fst (createChatLink (Some g) b a)
       \<and> fst (createChatLink_part001 (Some g) a b) = fst (createChatLink_part001 (Some g) b a)
       \<and> fst (createChatLink (Some g) a b) \<noteq> None
       \<and> (fst (createChatLink (Some g) a b) = fst (createChatLink (Some g') c d)
            \<longrightarrow> {a, b} = {c, d})
       \<and> (fst (createChatLink_part001 (Some g) a b) = fst (createChatLink_part001 (Some g') c d)
            \<longrightarrow> {a, b} = {c, d})"
proof -
  have inj: "join (js '':'') (sort [a, b]) = join (js '':'') (sort [c, d]) \<Longrightarrow> {a, b} = {c, d}"
    using assms by (intro sorted_join_inj restricted_no_colon)
  show ?thesis
    using assms inj
    by (simp only: createChatLink_restricted createChatLink_part001_id
        sorted_join_commute [of a b]) simp
qed

theorem channel_id_commutative_collision_free_witness:
  "restricted (js ''alice'') \<and> restricted (js ''bob'')
   \<and> fst (createChatLink (Some \<lparr>chats = \<lambda>_. []\<rparr>) (js ''bob'') (js ''alice'')) = Some (js ''alice:bob'')
   \<and> fst (createChatLink (Some \<lparr>chats = \<lambda>_. []\<rparr>) (js ''alice'') (js ''bob'')) = Some (js ''alice:bob'')
   \<and> fst (createChatLink_part001 (Some \<lparr>chats = \<lambda>_. []\<rparr>) (js ''bob'') (js ''alice''))
       = fst (createChatLink_part001 (Some \<lparr>chats = \<lambda>_. []\<rparr>) (js ''alice'') (js ''bob''))
   \<and> {js ''bob'', js ''alice''} = {js ''alice'', js ''bob''}"
proof -
  have r: "restricted (js ''alice'')" "restricted (js ''bob'')"
    by (simp_all add: restricted_def js_def isChatIdChar_def)
  have v: "fst (createChatLink (Some \<lparr>chats = \<lambda>_. []\<rparr>) (js ''alice'') (js ''bob'')) = Some (js ''alice:bob'')"
    by (simp add: createChatLink_def sanitizeForChatId_def js_def isChatIdChar_def Let_def)
  from channel_id_commutative_collision_free [OF r(2) r(1) r(1) r(2),
      of "\<lparr>chats = \<lambda>_. []\<rparr>" "\<lparr>chats = \<lambda>_. []\<rparr>"] r v
  show ?thesis by simp
qed

text \<open>
  C10. \<^verbatim>\<open>createChatLink\<close> keeps of each user name exactly the characters of the class
  \<^verbatim>\<open>[a-zA-Z0-9_-]\<close>, in order; when one of the two names has none it returns
  \<^verbatim>\<open>undefined\<close> and leaves the graph as it was; and two pairs of raw names whose
  members differ only in removed characters get the same result.
\<close>

theorem createChatLink_sanitizes:
  "list_all isChatIdChar (sanitizeForChatId a)
   \<and> (\<forall>c. count_list (sanitizeForChatId a) c = (if isChatIdChar c then count_list a c else 0))
   \<and> (sanitizeForChatId a = [] \<or> sanitizeForChatId b = []
        \<longrightarrow> createChatLink (Some g) a b = (None, Some g))
   \<and> (sanitizeForChatId a \<noteq> [] \<and> sanitizeForChatId b \<noteq> []
        \<longrightarrow> fst (createChatLink (Some g) a b)
              = Some (join (js '':'') (sort [sanitizeForChatId a, sanitizeForChatId b])))
   \<and> (sanitizeForChatId a = sanitizeForChatId a' \<and> sanitizeForChatId b = sanitizeForChatId b'
        \<longrightarrow> fst (createChatLink (Some g) a b) = fst (createChatLink (Some g') a' b'))"
proof -
  have kept: "list_all isChatIdChar (sanitizeForChatId a)"
    by (simp add: sanitizeForChatId_def list_all_iff)
  have cnt: "count_list (filter P xs) c = (if P c then count_list xs c else 0)"
    for P and xs :: jsstring and c
    by (induction xs) auto
  have count: "\<forall>c. count_list (sanitizeForChatId a) c = (if isChatIdChar c then count_list a c else 0)"
    unfolding sanitizeForChatId_def by (rule allI) (rule cnt)
  have empty: "sanitizeForChatId a = [] \<or> sanitizeForChatId b = []
        \<longrightarrow> createChatLink (Some g) a b = (None, Some g)"
    by (auto simp: createChatLink_def Let_def)
  have full: "sanitizeForChatId a \<noteq> [] \<and> sanitizeForChatId b \<noteq> []
        \<longrightarrow> fst (createChatLink (Some g) a b)
              = Some (join (js '':'') (sort [sanitizeForChatId a, sanitizeForChatId b]))"
    by (simp add: createChatLink_def Let_def)
  have same: "sanitizeForChatId a = sanitizeForChatId a' \<and> sanitizeForChatId b = sanitizeForChatId b'
        \<longrightarrow> fst (createChatLink (Some g) a b) = fst (createChatLink (Some g') a' b')"
    by (simp add: createChatLink_def Let_def)
  from kept count empty full same show ?thesis
    by (intro conjI)
qed

theorem createChatLink_sanitizes_witness:
  "sanitizeForChatId (js ''al ice!'') = js ''alice''
   \<and> sanitizeForChatId (js ''b:o.b'') = js ''bob''
   \<and> fst (createChatLink (Some \<lparr>chats = \<lambda>_. []\<rparr>) (js ''al ice!'') (js ''b:o.b'')) = Some (js ''alice:bob'')
   \<and> fst (createChatLink (Some \<lparr>chats = \<lambda>_. []\<rparr>) (js ''al ice!'') (js ''b:o.b''))
      = fst (createChatLink (Some \<lparr>chats = \<lambda>_. []\<rparr>) (js ''alice'') (js ''bob''))
   \<and> createChatLink (Some \<lparr>chats = \<lambda>_. []\<rparr>) (js ''!?'') (js ''bob'') = (None, Some \<lparr>chats = \<lambda>_. []\<rparr>)"
proof -
  have s: "sanitizeForChatId (js ''al ice!'') = js ''alice''" "sanitizeForChatId (js ''b:o.b'') = js ''bob''"
    "sanitizeForChatId (js ''alice'') = js ''alice''" "sanitizeForChatId (js ''bob'') = js ''bob''"
    "sanitizeForChatId (js ''!?'') = []"
    by (simp_all add: sanitizeForChatId_def js_def isChatIdChar_def)
  have ne: "js ''alice'' \<noteq> []" "js ''bob'' \<noteq> []" "js ''alice'' \<le> js ''bob''"
    by (simp_all add: js_def)
  have j: "js ''alice'' @ js '':'' @ js ''bob'' = js ''alice:bob''"
    by (simp add: js_def)
  from createChatLink_sanitizes [of "js ''al ice!''" "js ''b:o.b''" "\<lparr>chats = \<lambda>_. []\<rparr>"
      "js ''alice''" "js ''bob''" "\<lparr>chats = \<lambda>_. []\<rparr>"]
    createChatLink_sanitizes [of "js ''!?''" "js ''bob''" "\<lparr>chats = \<lambda>_. []\<rparr>"
      "js ''!?''" "js ''bob''" "\<lparr>chats = \<lambda>_. []\<rparr>"]
  show ?thesis
    by (simp add: s ne) (auto simp: j)
qed

section \<open>Directory lookup: proofs\<close>

text \<open>The pauses of the five rounds of a lookup with the default arguments.\<close>

lemma grow_values:
  "grow 700 = 840" "grow 840 = 1008" "grow 1008 = 1210" "grow 1210 = 1452" "grow 1452 = 1742"
  by (simp_all add: grow_def)

lemma tryOnce_timeout_values:
  "tryOnce_timeout 700 = 900" "tryOnce_timeout 840 = 900" "tryOnce_timeout 1008 = 900"
  "tryOnce_timeout 1210 = 900" "tryOnce_timeout 1452 = 900"
  by (simp_all add: tryOnce_timeout_def)

lemma grow_capped: "grow d \<le> 2000"
  by (simp add: grow_def)

lemma fetch_loop_done: "fetch_loop json_parse dir retries retries d log = (JNull, log)"
  by (subst fetch_loop.simps) simp

lemma fetch_loop_found:
  "i < retries \<Longrightarrow> nonEmpty (tryOnce d (dir i)) \<Longrightarrow>
   fetch_loop json_parse dir retries i d log
     = (decodePubKey json_parse (tryOnce d (dir i)), log @ [TryOnce (tryOnce_timeout d)])"
  by (subst fetch_loop.simps) (simp add: Let_def)

lemma fetch_loop_empty:
  "i < retries \<Longrightarrow> \<not> nonEmpty (tryOnce d (dir i)) \<Longrightarrow>
   fetch_loop json_parse dir retries i d log
     = fetch_loop json_parse dir retries (Suc i) (grow d)
         (log @ [TryOnce (tryOnce_timeout d), Sleep d])"
  by (subst fetch_loop.simps) (simp add: Let_def)

lemma lookup_exhausted:
  assumes "\<forall>i<5. \<not> nonEmpty (tryOnce (default_delays ! i) (dir i))"
  shows "fetchPartnerPubKey_default True json_parse dir = (JNull, exhausted_log)"
proof -
  have e: "\<not> nonEmpty (tryOnce 700 (dir 0))" "\<not> nonEmpty (tryOnce 840 (dir (Suc 0)))"
    "\<not> nonEmpty (tryOnce 1008 (dir (Suc (Suc 0))))"
    "\<not> nonEmpty (tryOnce 1210 (dir (Suc (Suc (Suc 0)))))"
    "\<not> nonEmpty (tryOnce 1452 (dir (Suc (Suc (Suc (Suc 0))))))"
    using assms [rule_format, of 0] assms [rule_format, of 1] assms [rule_format, of 2]
      assms [rule_format, of 3] assms [rule_format, of 4]
    by (simp_all add: default_delays_def numeral_eq_Suc)
  have five: "(5::nat) = Suc (Suc (Suc (Suc (Suc 0))))"
    by simp
  show ?thesis
    unfolding fetchPartnerPubKey_default_def fetchPartnerPubKey_def five
    by (simp add: fetch_loop_empty e grow_values tryOnce_timeout_values fetch_loop_done
        exhausted_log_def)
qed

lemma lookup_found:
  assumes "n < 5" "\<forall>i<n. \<not> nonEmpty (tryOnce (default_delays ! i) (dir i))"
    and "nonEmpty (tryOnce (default_delays ! n) (dir n))"
  shows "fetchPartnerPubKey_default True json_parse dir
           = (decodePubKey json_parse (tryOnce (default_delays ! n) (dir n)),
              take (2 * n + 1) exhausted_log)"
proof -
  have five: "(5::nat) = Suc (Suc (Suc (Suc (Suc 0))))"
    by simp
  from assms(1) consider "n = 0" | "n = Suc 0" | "n = Suc (Suc 0)" | "n = Suc (Suc (Suc 0))"
    | "n = Suc (Suc (Suc (Suc 0)))"
    by arith
  then show ?thesis
  proof cases
    case 1
    with assms(3) have f: "nonEmpty (tryOnce 700 (dir 0))"
      by (simp add: default_delays_def)
    show ?thesis
      unfolding fetchPartnerPubKey_default_def fetchPartnerPubKey_def five
      using f 1 by (simp add: fetch_loop_found tryOnce_timeout_values exhausted_log_def
          default_delays_def)
  next
    case 2
    with assms(2) [rule_format, of 0] assms(3)
    have f: "\<not> nonEmpty (tryOnce 700 (dir 0))" "nonEmpty (tryOnce 840 (dir (Suc 0)))"
      by (simp_all add: default_delays_def)
    show ?thesis
      unfolding fetchPartnerPubKey_default_def fetchPartnerPubKey_def five
      using f 2 by (simp add: fetch_loop_found fetch_loop_empty grow_values
          tryOnce_timeout_values exhausted_log_def default_delays_def)
  next
    case 3
    with assms(2) [rule_format, of 0] assms(2) [rule_format, of 1] assms(3)
    have f: "\<not> nonEmpty (tryOnce 700 (dir 0))" "\<not> nonEmpty (tryOnce 840 (dir (Suc 0)))"
      "nonEmpty (tryOnce 1008 (dir (Suc (Suc 0))))"
      by (simp_all add: default_delays_def)
    show ?thesis
      unfolding fetchPartnerPubKey_default_def fetchPartnerPubKey_def five
      using f 3 by (simp add: fetch_loop_found fetch_loop_empty grow_values
          tryOnce_timeout_values exhausted_log_def default_delays_def)
  next
    case 4
    with assms(2) [rule_format, of 0] assms(2) [rule_format, of 1] assms(2) [rule_format, of 2]
      assms(3)
    have f: "\<not> nonEmpty (tryOnce 700 (dir 0))" "\<not> nonEmpty (tryOnce 840 (dir (Suc 0)))"
      "\<not> nonEmpty (tryOnce 1008 (dir (Suc (Suc 0))))"
      "nonEmpty (tryOnce 1210 (dir (Suc (Suc (Suc 0)))))"
      by (simp_all add: default_delays_def numeral_eq_Suc)
    show ?thesis
      unfolding fetchPartnerPubKey_default_def fetchPartnerPubKey_def five
      using f 4 by (simp add: fetch_loop_found fetch_loop_empty grow_values
          tryOnce_timeout_values exhausted_log_def default_delays_def)
  next
    case 5
    with assms(2) [rule_format, of 0] assms(2) [rule_format, of 1] assms(2) [rule_format, of 2]
      assms(2) [rule_format, of 3] assms(3)
    have f: "\<not> nonEmpty (tryOnce 700 (dir 0))" "\<not> nonEmpty (tryOnce 840 (dir (Suc 0)))"
      "\<not> nonEmpty (tryOnce 1008 (dir (Suc (Suc 0))))"
      "\<not> nonEmpty (tryOnce 1210 (dir (Suc (Suc (Suc 0)))))"
      "nonEmpty (tryOnce 1452 (dir (Suc (Suc (Suc (Suc 0))))))"
      by (simp_all add: default_delays_def numeral_eq_Suc)
    show ?thesis
      unfolding fetchPartnerPubKey_default_def fetchPartnerPubKey_def five
      using f 5 by (simp add: fetch_loop_found fetch_loop_empty grow_values
          tryOnce_timeout_values exhausted_log_def default_delays_def)
  qed
qed

lemma not_found_status:
  assumes "fst (fetchPartnerPubKey_default (gun st \<noteq> None) json_parse dir) = JNull"
    and "trim (newChatUsername st) \<noteq> []" "trim (newChatUsername st) \<noteq> currentUser st"
    and "restricted (trim (newChatUsername st))"
  shows "handleNewChatSubmit json_parse dir st
           = st\<lparr>newChatStatus := js ''User not found. Please check the username and try again.''\<rparr>"
  using assms by (simp add: handleNewChatSubmit_def Let_def)

text \<open>The race of a read against the timer, for every pause the default lookup reaches.\<close>

lemma tryOnce_race:
  "d \<le> 1800 \<Longrightarrow> tryOnce d (Reply t res) = (if t < 900 then res else JUndefined)"
  "tryOnce d Silent = JUndefined" "tryOnce d Throws = JUndefined"
proof -
  assume "d \<le> 1800"
  then have "max 900 (d div 2) = 900"
    by simp
  then show "tryOnce d (Reply t res) = (if t < 900 then res else JUndefined)"
    by (simp add: tryOnce_def tryOnce_timeout_def)
qed (simp_all add: tryOnce_def)

lemma default_delays_small: "i < 5 \<Longrightarrow> default_delays ! i \<le> 1800"
proof -
  assume "i < 5"
  then consider "i = 0" | "i = 1" | "i = 2" | "i = 3" | "i = 4"
    by arith
  then show ?thesis
    by cases (simp_all add: default_delays_def)
qed

lemma empty_read_tryOnce:
  "i < 5 \<Longrightarrow> empty_read r \<longleftrightarrow> \<not> nonEmpty (tryOnce (default_delays ! i) r)"
  using default_delays_small [of i]
  by (cases r) (auto simp: empty_read_def tryOnce_race nonEmpty_def)

lemma lookup_all_empty:
  assumes "\<forall>i<5. empty_read (dir i)"
  shows "fetchPartnerPubKey_default True json_parse dir = (JNull, exhausted_log)"
  using assms by (intro lookup_exhausted) (simp add: empty_read_tryOnce)

lemma lookup_first_value:
  assumes "n < 5" "\<forall>i<n. empty_read (dir i)" "dir n = Reply t res" "t < 900" "nonEmpty res"
  shows "fetchPartnerPubKey_default True json_parse dir
           = (decodePubKey json_parse res, take (2 * n + 1) exhausted_log)"
proof -
  have v: "tryOnce (default_delays ! n) (dir n) = res"
    using assms(1,3,4) default_delays_small [of n] by (simp add: tryOnce_race)
  have "\<forall>i<n. \<not> nonEmpty (tryOnce (default_delays ! i) (dir i))"
    using assms(1,2) by (auto simp: empty_read_tryOnce [symmetric])
  with assms(1) have "fetchPartnerPubKey_default True json_parse dir
      = (decodePubKey json_parse (tryOnce (default_delays ! n) (dir n)),
         take (2 * n + 1) exhausted_log)"
    by (rule lookup_found) (simp add: v assms(5))
  then show ?thesis
    by (simp only: v)
qed

lemma lookup_exhausted_only:
  assumes "snd (fetchPartnerPubKey_default True json_parse dir) = exhausted_log"
  shows "\<forall>i<5. empty_read (dir i)"
proof (rule ccontr)
  assume "\<not> (\<forall>i<5. empty_read (dir i))"
  then have "\<exists>n. n < 5 \<and> \<not> empty_read (dir n)"
    by blast
  then obtain n where n: "n < 5" "\<not> empty_read (dir n)"
    and least: "\<forall>m<n. \<not> (m < 5 \<and> \<not> empty_read (dir m))"
    by (subst (asm) exists_least_iff) blast
  from n(2) obtain t res where r: "dir n = Reply t res" "t < 900" "nonEmpty res"
    by (cases "dir n") (auto simp: empty_read_def nonEmpty_def)
  from least n(1) have "\<forall>i<n. empty_read (dir i)"
    by auto
  with n(1) have "fetchPartnerPubKey_default True json_parse dir
      = (decodePubKey json_parse res, take (2 * n + 1) exhausted_log)"
    using r by (rule lookup_first_value)
  with assms have "take (2 * n + 1) exhausted_log = exhausted_log"
    by simp
  then have "length (take (2 * n + 1) exhausted_log) = length exhausted_log"
    by simp
  with n(1) show False
    by (simp add: exhausted_log_def)
qed

text \<open>
  C5, as the code has it. With the graph present and the default arguments: every read
  is raced against a timer of 900 ms, and an answer that comes no sooner counts for
  nothing, whatever it holds. When every one of the five reads is empty (no answer
  within 900 ms, \<^verbatim>\<open>undefined\<close>, \<^verbatim>\<open>null\<close> or the empty string), the lookup makes exactly
  five reads, pauses 700, 840, 1008, 1210 and 1452 ms after them (each pause the previous
  one times 1.2, rounded, never above 2000), and then returns \<^verbatim>\<open>null\<close>;
  \<^verbatim>\<open>handleNewChatSubmit\<close> then shows "User not found". Only then does the lookup make
  five reads and pauses. When the read of round \<open>n\<close> is the first to answer in time with a
  value that is not empty, that value (parsed when it is a string that parses) is
  returned after \<open>n + 1\<close> reads, with no further read. Without the graph the lookup
  returns \<^verbatim>\<open>null\<close> with no read at all, and "User not found" is shown as well.
\<close>

theorem resolve_bounded_retry:
  "((\<forall>i<5. empty_read (dir i)) \<longrightarrow>
      fetchPartnerPubKey_default True json_parse dir = (JNull, exhausted_log)
      \<and> (gun st \<noteq> None \<and> trim (newChatUsername st) \<noteq> []
           \<and> trim (newChatUsername st) \<noteq> currentUser st
           \<and> restricted (trim (newChatUsername st)) \<longrightarrow>
          handleNewChatSubmit json_parse dir st
            = st\<lparr>newChatStatus := js ''User not found. Please check the username and try again.''\<rparr>))
   \<and> (snd (fetchPartnerPubKey_default True json_parse dir) = exhausted_log
        \<longrightarrow> (\<forall>i<5. empty_read (dir i)))
   \<and> (n < 5 \<and> (\<forall>i<n. empty_read (dir i)) \<and> dir n = Reply t res \<and> t < 900
        \<and> res \<noteq> JUndefined \<and> res \<noteq> JNull \<and> res \<noteq> JStr [] \<longrightarrow>
       fetchPartnerPubKey_default True json_parse dir
         = (decodePubKey json_parse res, take (2 * n + 1) exhausted_log)
       \<and> attempts (take (2 * n + 1) exhausted_log) = n + 1)
   \<and> (d \<le> 1800 \<longrightarrow> tryOnce d (Reply t res) = (if t < 900 then res else JUndefined))
   \<and> tryOnce d Silent = JUndefined
   \<and> tryOnce d Throws = JUndefined
   \<and> fetchPartnerPubKey_default False json_parse dir = (JNull, [])
   \<and> (gun st = None \<and> trim (newChatUsername st) \<noteq> []
        \<and> trim (newChatUsername st) \<noteq> currentUser st
        \<and> restricted (trim (newChatUsername st)) \<longrightarrow>
       handleNewChatSubmit json_parse dir st
         = st\<lparr>newChatStatus := js ''User not found. Please check the username and try again.''\<rparr>)
   \<and> attempts exhausted_log = 5
   \<and> sleeps exhausted_log = default_delays
   \<and> default_delays = [700, grow 700, grow (grow 700), grow (grow (grow 700)),
                        grow (grow (grow (grow 700)))]
   \<and> grow d = min 2000 ((12 * d + 5) div 10)"
proof -
  have exhausted: "(\<forall>i<5. empty_read (dir i)) \<longrightarrow>
      fetchPartnerPubKey_default True json_parse dir = (JNull, exhausted_log)
      \<and> (gun st \<noteq> None \<and> trim (newChatUsername st) \<noteq> []
           \<and> trim (newChatUsername st) \<noteq> currentUser st
           \<and> restricted (trim (newChatUsername st)) \<longrightarrow>
          handleNewChatSubmit json_parse dir st
            = st\<lparr>newChatStatus := js ''User not found. Please check the username and try again.''\<rparr>)"
  proof (intro impI conjI)
    assume a: "\<forall>i<5. empty_read (dir i)"
    then show r: "fetchPartnerPubKey_default True json_parse dir = (JNull, exhausted_log)"
      by (rule lookup_all_empty)
    assume b: "gun st \<noteq> None \<and> trim (newChatUsername st) \<noteq> []
           \<and> trim (newChatUsername st) \<noteq> currentUser st
           \<and> restricted (trim (newChatUsername st))"
    with r have "fst (fetchPartnerPubKey_default (gun st \<noteq> None) json_parse dir) = JNull"
      by simp
    with b show "handleNewChatSubmit json_parse dir st
            = st\<lparr>newChatStatus := js ''User not found. Please check the username and try again.''\<rparr>"
      by (intro not_found_status) simp_all
  qed
  have only: "snd (fetchPartnerPubKey_default True json_parse dir) = exhausted_log
        \<longrightarrow> (\<forall>i<5. empty_read (dir i))"
    using lookup_exhausted_only [of json_parse dir] by blast
  have count: "attempts (take (2 * n + 1) exhausted_log) = n + 1" if "n < 5"
  proof -
    from that consider "n = 0" | "n = 1" | "n = 2" | "n = 3" | "n = 4"
      by arith
    then show ?thesis
      by cases (simp_all add: attempts_def exhausted_log_def)
  qed
  have found: "n < 5 \<and> (\<forall>i<n. empty_read (dir i)) \<and> dir n = Reply t res \<and> t < 900
        \<and> res \<noteq> JUndefined \<and> res \<noteq> JNull \<and> res \<noteq> JStr [] \<longrightarrow>
       fetchPartnerPubKey_default True json_parse dir
         = (decodePubKey json_parse res, take (2 * n + 1) exhausted_log)
       \<and> attempts (take (2 * n + 1) exhausted_log) = n + 1"
    using lookup_first_value [of n dir t res json_parse] count by (simp add: nonEmpty_def)
  have race: "d \<le> 1800 \<longrightarrow> tryOnce d (Reply t res) = (if t < 900 then res else JUndefined)"
    by (simp add: tryOnce_race)
  have absent: "fetchPartnerPubKey_default False json_parse dir = (JNull, [])"
    by (simp add: fetchPartnerPubKey_default_def fetchPartnerPubKey_def)
  have absent_status: "gun st = None \<and> trim (newChatUsername st) \<noteq> []
        \<and> trim (newChatUsername st) \<noteq> currentUser st
        \<and> restricted (trim (newChatUsername st)) \<longrightarrow>
       handleNewChatSubmit json_parse dir st
         = st\<lparr>newChatStatus := js ''User not found. Please check the username and try again.''\<rparr>"
  proof
    assume b: "gun st = None \<and> trim (newChatUsername st) \<noteq> []
        \<and> trim (newChatUsername st) \<noteq> currentUser st
        \<and> restricted (trim (newChatUsername st))"
    with absent have "fst (fetchPartnerPubKey_default (gun st \<noteq> None) json_parse dir) = JNull"
      by simp
    with b show "handleNewChatSubmit json_parse dir st
         = st\<lparr>newChatStatus := js ''User not found. Please check the username and try again.''\<rparr>"
      by (intro not_found_status) simp_all
  qed
  have five: "attempts exhausted_log = 5"
    by (simp add: attempts_def exhausted_log_def)
  have pauses: "sleeps exhausted_log = default_delays"
    by (simp add: sleeps_def exhausted_log_def default_delays_def)
  have backoff: "default_delays = [700, grow 700, grow (grow 700), grow (grow (grow 700)),
                        grow (grow (grow (grow 700)))]"
    by (simp add: default_delays_def grow_values)
  have cap: "grow d = min 2000 ((12 * d + 5) div 10)"
    by (simp add: grow_def)
  from exhausted only found race tryOnce_race(2) [of d] tryOnce_race(3) [of d] absent
    absent_status five pauses backoff cap
  show ?thesis
    by (intro conjI)
qed

text \<open>
  The user "ghost", of whom the directory never answers; a directory that answers with
  the stored key, but never within 900 ms; and one that answers with the stored key too
  late twice and then in time.
\<close>

theorem resolve_bounded_retry_witness:
  "fetchPartnerPubKey_default True (\<lambda>s. None) (\<lambda>i. Silent) = (JNull, exhausted_log)
   \<and> newChatStatus (handleNewChatSubmit (\<lambda>s. None) (\<lambda>i. Silent)
        ((chat_mounted (js ''alice'') None (Some \<lparr>chats = \<lambda>u. []\<rparr>) 0)\<lparr>newChatUsername := js '' ghost ''\<rparr>))
       = js ''User not found. Please check the username and try again.''
   \<and> fetchPartnerPubKey_default True (\<lambda>s. Some (JObj [(js ''kty'', JStr (js ''EC''))]))
        (\<lambda>i. Reply 900 (JStr (js ''{...}'')))
       = (JNull, exhausted_log)
   \<and> fetchPartnerPubKey_default True (\<lambda>s. Some (JObj [(js ''kty'', JStr (js ''EC''))]))
        (\<lambda>i. if i = 2 then Reply 50 (JStr (js ''{...}'')) else Reply 1000 (JStr (js ''{...}'')))
       = (JObj [(js ''kty'', JStr (js ''EC''))],
          [TryOnce 900, Sleep 700, TryOnce 900, Sleep 840, TryOnce 900])
   \<and> tryOnce 700 (Reply 899 (JStr (js ''{...}''))) = JStr (js ''{...}'')
   \<and> tryOnce 700 (Reply 900 (JStr (js ''{...}''))) = JUndefined"
proof -
  let ?st = "(chat_mounted (js ''alice'') None (Some \<lparr>chats = \<lambda>u. []\<rparr>) 0)\<lparr>newChatUsername := js '' ghost ''\<rparr>"
  let ?late = "\<lambda>i::nat. Reply 900 (JStr (js ''{...}''))"
  let ?dir = "\<lambda>i::nat. if i = 2 then Reply 50 (JStr (js ''{...}'')) else Reply 1000 (JStr (js ''{...}''))"
  let ?parse = "\<lambda>s::jsstring. Some (JObj [(js ''kty'', JStr (js ''EC''))])"
  have silent: "\<forall>i<5. empty_read ((\<lambda>i. Silent) i)"
    by (simp add: empty_read_def)
  have late: "\<forall>i<5. empty_read (?late i)"
    by (simp add: empty_read_def)
  have t: "trim (js '' ghost '') = js ''ghost''"
    by (simp add: trim_def js_def isWhiteSpace_def)
  have u: "gun ?st \<noteq> None \<and> trim (newChatUsername ?st) \<noteq> []
           \<and> trim (newChatUsername ?st) \<noteq> currentUser ?st
           \<and> restricted (trim (newChatUsername ?st))"
    by (simp add: chat_mounted_def t) (simp add: js_def restricted_def isChatIdChar_def)
  note ghost = resolve_bounded_retry [where dir = "\<lambda>i. Silent" and json_parse = "\<lambda>s. None"
      and st = ?st, THEN conjunct1, THEN mp, OF silent]
  have a: "fetchPartnerPubKey_default True (\<lambda>s. None) (\<lambda>i. Silent) = (JNull, exhausted_log)"
    by (rule ghost [THEN conjunct1])
  have b: "handleNewChatSubmit (\<lambda>s. None) (\<lambda>i. Silent) ?st
            = ?st\<lparr>newChatStatus := js ''User not found. Please check the username and try again.''\<rparr>"
    by (rule ghost [THEN conjunct2, THEN mp, OF u])
  have c: "fetchPartnerPubKey_default True ?parse ?late = (JNull, exhausted_log)"
    by (rule resolve_bounded_retry [where dir = ?late and json_parse = ?parse,
          THEN conjunct1, THEN mp, OF late, THEN conjunct1])
  have prem: "(2::nat) < 5 \<and> (\<forall>i<2. empty_read (?dir i)) \<and> ?dir 2 = Reply 50 (JStr (js ''{...}''))
      \<and> (50::nat) < 900 \<and> JStr (js ''{...}'') \<noteq> JUndefined \<and> JStr (js ''{...}'') \<noteq> JNull
      \<and> JStr (js ''{...}'') \<noteq> JStr []"
    by (simp add: empty_read_def js_def)
  from resolve_bounded_retry [where dir = ?dir and json_parse = ?parse and n = 2 and t = 50
      and res = "JStr (js ''{...}'')", THEN conjunct2, THEN conjunct2, THEN conjunct1, THEN mp,
      OF prem, THEN conjunct1]
  have d: "fetchPartnerPubKey_default True ?parse ?dir
       = (JObj [(js ''kty'', JStr (js ''EC''))],
          [TryOnce 900, Sleep 700, TryOnce 900, Sleep 840, TryOnce 900])"
    by (simp add: decodePubKey_def exhausted_log_def)
  have e: "tryOnce 700 (Reply 899 (JStr (js ''{...}''))) = JStr (js ''{...}'')"
    using resolve_bounded_retry [where d = 700 and t = 899 and res = "JStr (js ''{...}'')",
      THEN conjunct2, THEN conjunct2, THEN conjunct2, THEN conjunct1]
    by simp
  have f: "tryOnce 700 (Reply 900 (JStr (js ''{...}''))) = JUndefined"
    using resolve_bounded_retry [where d = 700 and t = 900 and res = "JStr (js ''{...}'')",
      THEN conjunct2, THEN conjunct2, THEN conjunct2, THEN conjunct1]
    by simp
  from a b c d e f show ?thesis
    by simp
qed

text \<open>
  C5 as stated fails when the module has no graph (\<^verbatim>\<open>gun\<close> is \<^verbatim>\<open>null\<close>): the lookup of
  "ghost", whose reads would all be empty, returns \<^verbatim>\<open>null\<close> at once, having made no
  read and no pause.
\<close>

theorem no_graph_counterexample:
  "fetchPartnerPubKey_default False (\<lambda>s. None) (\<lambda>i. Silent) = (JNull, [])
   \<and> attempts (snd (fetchPartnerPubKey_default False (\<lambda>s. None) (\<lambda>i. Silent))) = 0
   \<and> sleeps (snd (fetchPartnerPubKey_default False (\<lambda>s. None) (\<lambda>i. Silent))) = []"
  by (simp add: fetchPartnerPubKey_default_def fetchPartnerPubKey_def attempts_def sleeps_def)
section \<open>The codec: proofs\<close>

subsection \<open>Base64\<close>

lemma unat_of_nat_byte: "n < 256 \<Longrightarrow> unat (of_nat n :: byte) = n"
  by (simp add: unat_of_nat)

lemma unat_of_nat_unit: "n < 65536 \<Longrightarrow> unat (of_nat n :: 16 word) = n"
  by (simp add: unat_of_nat)

lemma unat_b64char:
  assumes "n < 64"
  shows "unat (b64char n)
     = (if n < 26 then 65 + n else if n < 52 then 71 + n else if n < 62 then n - 4
        else if n = 62 then 43 else 47)"
proof -
  have a: "unat (of_nat (65 + n) :: 16 word) = 65 + n"
    using assms by (intro unat_of_nat_unit) simp
  have b: "unat (of_nat (97 + (n - 26)) :: 16 word) = 97 + (n - 26)"
    using assms by (intro unat_of_nat_unit) simp
  have c: "unat (of_nat (48 + (n - 52)) :: 16 word) = 48 + (n - 52)"
    using assms by (intro unat_of_nat_unit) simp
  have d: "unat (0x2B :: 16 word) = 43" "unat (0x2F :: 16 word) = 47"
    by simp_all
  show ?thesis
    unfolding b64char_def using a b c d by (simp only: split: if_splits) auto
qed

lemma b64val_b64char: "n < 64 \<Longrightarrow> b64val (b64char n) = Some n"
  unfolding b64val_def Let_def by (simp only: unat_b64char) auto

lemma b64val_pad: "b64val 0x3D = None"
  by (simp add: b64val_def)

lemma b64val_whitespace: "isAsciiWhitespace c \<Longrightarrow> b64val c = None"
  by (auto simp: b64val_def isAsciiWhitespace_def)

lemma b64char_not_pad: "n < 64 \<Longrightarrow> b64char n \<noteq> 0x3D"
  using b64val_b64char [of n] b64val_pad by auto

lemma b64char_not_whitespace: "n < 64 \<Longrightarrow> \<not> isAsciiWhitespace (b64char n)"
  using b64val_b64char [of n] b64val_whitespace [of "b64char n"] by auto

lemma pad_not_whitespace: "\<not> isAsciiWhitespace 0x3D"
  by (simp add: isAsciiWhitespace_def)

lemma those_b64val: "\<forall>s\<in>set ss. s < 64 \<Longrightarrow> those (map b64val (map b64char ss)) = Some ss"
  by (induction ss) (simp_all add: b64val_b64char)

lemma sextet_bounds:
  assumes "x < 256" "y < 256" "z < 256"
  shows "x div 4 < (64::nat)" "(x mod 4) * 16 + y div 16 < 64" "(y mod 16) * 4 + z div 64 < 64"
    "z mod 64 < 64" "(x mod 4) * 16 < 64" "(y mod 16) * 4 < 64"
  using assms by simp_all

lemma digits: "b < m \<Longrightarrow> (a * m + b) div m = (a::nat)" "b < m \<Longrightarrow> (a * m + b) mod m = b"
  by simp_all

lemma sextets_back:
  assumes "x < 256" "y < 256" "z < 256"
  shows "(x div 4) * 4 + ((x mod 4) * 16 + y div 16) div 16 = (x::nat)"
    "(((x mod 4) * 16 + y div 16) mod 16) * 16 + ((y mod 16) * 4 + z div 64) div 4 = y"
    "(((y mod 16) * 4 + z div 64) mod 4) * 64 + z mod 64 = z"
    "(x div 4) * 4 + ((x mod 4) * 16) div 16 = x"
    "(((x mod 4) * 16 + y div 16) mod 16) * 16 + ((y mod 16) * 4) div 4 = y"
proof -
  from assms have y: "y div 16 < 16" and z: "z div 64 < 4"
    by simp_all
  show "(x div 4) * 4 + ((x mod 4) * 16 + y div 16) div 16 = x"
    by (simp only: digits(1) [OF y]) simp
  show "(((x mod 4) * 16 + y div 16) mod 16) * 16 + ((y mod 16) * 4 + z div 64) div 4 = y"
    by (simp only: digits(2) [OF y] digits(1) [OF z]) simp
  show "(((y mod 16) * 4 + z div 64) mod 4) * 64 + z mod 64 = z"
    by (simp only: digits(2) [OF z]) simp
  show "(x div 4) * 4 + ((x mod 4) * 16) div 16 = x"
    by simp
  show "(((x mod 4) * 16 + y div 16) mod 16) * 16 + ((y mod 16) * 4) div 4 = y"
    by (simp only: digits(2) [OF y]) simp
qed

lemma strip_padding_append:
  assumes "2 \<le> length e"
  shows "strip_padding (cs @ e) = cs @ strip_padding e"
proof -
  from assms have e: "e \<noteq> []" and b: "butlast e \<noteq> []"
    by (auto simp: butlast_conv_take)
  then show ?thesis
    by (simp add: strip_padding_def butlast_append)
qed

lemma b64encode_length: "length (b64encode xs) mod 4 = 0"
  by (induction xs rule: b64encode.induct) simp_all

lemma b64encode_long: "xs \<noteq> [] \<Longrightarrow> 2 \<le> length (b64encode xs)"
  by (induction xs rule: b64encode.induct) simp_all

lemma b64encode_no_whitespace:
  "\<forall>x\<in>set xs. x < 256 \<Longrightarrow>
   filter (\<lambda>c. \<not> isAsciiWhitespace c) (b64encode xs) = b64encode xs"
proof (induction xs rule: b64encode.induct)
  case (1 x y z rest)
  then have "x < 256" "y < 256" "z < 256" by simp_all
  note s = sextet_bounds [OF this]
  from 1 show ?case
    by (simp add: b64char_not_whitespace s)
next
  case (2 x y)
  then have "x < 256" "y < 256" "y < 256" by simp_all
  note s = sextet_bounds [OF this]
  show ?case
    by (simp add: b64char_not_whitespace s pad_not_whitespace)
next
  case (3 x)
  then have "x < 256" "x < 256" "x < 256" by simp_all
  note s = sextet_bounds [OF this]
  show ?case
    by (simp add: b64char_not_whitespace s pad_not_whitespace)
next
  case 4
  show ?case by simp
qed

lemma b64encode_sextets:
  "\<forall>x\<in>set xs. x < 256 \<Longrightarrow>
   \<exists>ss. strip_padding (b64encode xs) = map b64char ss \<and> (\<forall>s\<in>set ss. s < 64)
        \<and> b64decode ss = xs \<and> length ss mod 4 \<noteq> 1"
proof (induction xs rule: b64encode.induct)
  case (1 x y z rest)
  then have xyz: "x < 256" "y < 256" "z < 256" by simp_all
  note s = sextet_bounds [OF xyz]
  note sb = sextets_back [OF xyz]
  let ?ss = "[x div 4, (x mod 4) * 16 + y div 16, (y mod 16) * 4 + z div 64, z mod 64]"
  show ?case
  proof (cases "rest = []")
    case True
    have "strip_padding (b64encode (x # y # z # rest)) = map b64char ?ss"
      using True by (simp add: strip_padding_def b64char_not_pad s)
    moreover have "b64decode ?ss = x # y # z # rest"
      using True by (simp only: b64decode.simps sb append.simps)
    ultimately show ?thesis
      using s by (intro exI [of _ ?ss]) simp
  next
    case False
    from 1 obtain ss where ss: "strip_padding (b64encode rest) = map b64char ss"
      "\<forall>s\<in>set ss. s < 64" "b64decode ss = rest" "length ss mod 4 \<noteq> 1"
      by auto
    have "strip_padding (b64encode (x # y # z # rest)) = map b64char (?ss @ ss)"
      using strip_padding_append [OF b64encode_long [OF False], of "map b64char ?ss"] ss(1)
      by simp
    moreover have "b64decode (?ss @ ss) = x # y # z # rest"
      using ss(3) by (simp only: b64decode.simps sb append.simps)
    moreover have "length (?ss @ ss) mod 4 \<noteq> 1"
      using ss(4) by simp
    ultimately show ?thesis
      using s ss(2) by (intro exI [of _ "?ss @ ss"]) simp
  qed
next
  case (2 x y)
  then have xyz: "x < 256" "y < 256" "y < 256" by simp_all
  note s = sextet_bounds [OF xyz]
  note sb = sextets_back [OF xyz]
  let ?ss = "[x div 4, (x mod 4) * 16 + y div 16, (y mod 16) * 4]"
  have "strip_padding (b64encode [x, y]) = map b64char ?ss"
    by (simp add: strip_padding_def b64char_not_pad s)
  moreover have "b64decode ?ss = [x, y]"
    by (simp only: b64decode.simps sb)
  ultimately show ?case
    using s by (intro exI [of _ ?ss]) simp
next
  case (3 x)
  then have xyz: "x < 256" "x < 256" "x < 256" by simp_all
  note s = sextet_bounds [OF xyz]
  note sb = sextets_back [OF xyz]
  let ?ss = "[x div 4, (x mod 4) * 16]"
  have "strip_padding (b64encode [x]) = map b64char ?ss"
    by (simp add: strip_padding_def)
  moreover have "b64decode ?ss = [x]"
    by (simp only: b64decode.simps sb)
  ultimately show ?case
    using s by (intro exI [of _ ?ss]) simp
next
  case 4
  show ?case
    by (intro exI [of _ "[]"]) (simp add: strip_padding_def)
qed

lemma atob_b64encode:
  assumes "\<forall>x\<in>set xs. x < 256"
  shows "atob (b64encode xs) = Inr (map of_nat xs)"
proof -
  from b64encode_sextets [OF assms] obtain ss
    where ss: "strip_padding (b64encode xs) = map b64char ss" "\<forall>s\<in>set ss. s < 64"
      "b64decode ss = xs" "length ss mod 4 \<noteq> 1"
    by auto
  have d: "filter (\<lambda>c. \<not> isAsciiWhitespace c) (b64encode xs) = b64encode xs"
    by (rule b64encode_no_whitespace [OF assms])
  have len: "length (map b64char ss) mod 4 \<noteq> 1"
    using ss(4) by simp
  show ?thesis
    unfolding atob_def Let_def d
    by (simp only: b64encode_length ss(1) those_b64val [OF ss(2)] ss(3) len
        if_True if_False option.case refl)
qed

lemma unat_byte_less: "unat (b :: byte) < 256"
  using unsigned_less [of b, where 'a = nat] by simp

lemma unat_ucast_byte: "unat (ucast (b :: byte) :: 16 word) = unat b"
  using unat_byte_less [of b] by (simp add: unsigned_ucast_eq take_bit_nat_eq_self)

lemma arrayBufferToB64_eq: "arrayBufferToB64 buffer = Inr (b64encode (map unat buffer))"
proof -
  have le: "(ucast (b :: byte) :: 16 word) \<le> 0xFF" for b
    using unat_byte_less [of b] by (simp add: word_le_nat_alt unat_ucast_byte)
  show ?thesis
    by (simp add: arrayBufferToB64_def btoa_def list_all_iff le unat_ucast_byte comp_def)
qed

lemma ucast_ucast_byte: "(ucast (ucast b :: 16 word) :: byte) = b" for b :: byte
  by (rule ucast_up_ucast_id) (simp add: is_up)

lemma b64ToArrayBuffer_b64encode: "b64ToArrayBuffer (b64encode (map unat buffer)) = Inr buffer"
proof -
  have small: "\<forall>x\<in>set (map unat buffer). x < 256"
    by (simp add: unat_byte_less)
  show ?thesis
    by (simp add: b64ToArrayBuffer_def atob_b64encode [OF small] comp_def ucast_ucast_byte)
qed

subsection \<open>UTF-8\<close>

lemma utf8_decode_start:
  "unat w = n \<Longrightarrow>
   utf8_decode utf8_init (w # bs) = fst (utf8_lead n) @ utf8_decode (snd (utf8_lead n)) bs"
  by (auto simp: utf8_init_def)

lemma utf8_decode_cont:
  "unat w = n \<Longrightarrow> bytes_needed s \<noteq> 0 \<Longrightarrow> lower_boundary s \<le> n \<Longrightarrow> n \<le> upper_boundary s \<Longrightarrow>
   utf8_decode s (w # bs) = fst (utf8_cont s n) @ utf8_decode (snd (utf8_cont s n)) bs"
  by auto

lemma one_byte:
  assumes "cp < 0x80"
  shows "utf8_decode utf8_init (utf8_encode_cp cp @ rest) = cp # utf8_decode utf8_init rest"
proof -
  have enc: "utf8_encode_cp cp = [of_nat cp]"
    using assms by (simp add: utf8_encode_cp_def)
  have u: "unat (of_nat cp :: byte) = cp"
    using assms by (intro unat_of_nat_byte) simp
  have l: "utf8_lead cp = ([cp], utf8_init)"
    using assms by (simp add: utf8_lead_def)
  show ?thesis
    by (simp only: enc append.simps utf8_decode_start [OF u] l fst_conv snd_conv)
qed

lemma two_bytes:
  assumes "0x80 \<le> cp" "cp < 0x800"
  shows "utf8_decode utf8_init (utf8_encode_cp cp @ rest) = cp # utf8_decode utf8_init rest"
proof -
  define a b where "a = cp div 64" and "b = cp mod 64"
  have cp: "a * 64 + b = cp"
    by (simp add: a_def b_def)
  have a: "2 \<le> a" "a < 32" and b: "b < 64"
    using assms by (simp_all add: a_def b_def)
  define s1 where "s1 = utf8_init\<lparr>bytes_needed := 1, code_point := a\<rparr>"
  have enc: "utf8_encode_cp cp = [of_nat (0xC0 + a), of_nat (0x80 + b)]"
    using assms by (simp add: utf8_encode_cp_def a_def b_def)
  have u1: "unat (of_nat (0xC0 + a) :: byte) = 0xC0 + a"
    using a by (intro unat_of_nat_byte) simp
  have u2: "unat (of_nat (0x80 + b) :: byte) = 0x80 + b"
    using b by (intro unat_of_nat_byte) simp
  have m: "(0xC0 + a) mod 32 = a"
    using digits(2) [of a 32 6] a by simp
  have l: "utf8_lead (0xC0 + a) = ([], s1)"
    using a by (simp add: utf8_lead_def m s1_def)
  have s1: "bytes_needed s1 \<noteq> 0" "lower_boundary s1 \<le> 0x80 + b" "0x80 + b \<le> upper_boundary s1"
    using b by (simp_all add: s1_def utf8_init_def)
  have m2: "(0x80 + b) mod 64 = b"
    using digits(2) [of b 64 2] b by simp
  have c: "utf8_cont s1 (0x80 + b) = ([cp], utf8_init)"
    by (simp add: utf8_cont_def m2 s1_def utf8_init_def cp [symmetric])
  show ?thesis
    unfolding enc
    by (simp only: append.simps utf8_decode_start [OF u1] l fst_conv snd_conv
        utf8_decode_cont [OF u2 s1] c)
qed

lemma three_bytes:
  assumes "0x800 \<le> cp" "cp < 0x10000" "\<not> (0xD800 \<le> cp \<and> cp \<le> 0xDFFF)"
  shows "utf8_decode utf8_init (utf8_encode_cp cp @ rest) = cp # utf8_decode utf8_init rest"
proof -
  define a b c where "a = cp div 4096" and "b = (cp div 64) mod 64" and "c = cp mod 64"
  have "cp div 4096 = cp div 64 div 64"
    by (simp add: div_mult2_eq [symmetric])
  then have "a * 64 + b = cp div 64"
    by (simp add: a_def b_def)
  then have cp: "(a * 64 + b) * 64 + c = cp"
    by (simp add: c_def)
  have a: "a < 16" and b: "b < 64" and c: "c < 64"
    using assms by (simp_all add: a_def b_def c_def)
  have lin: "cp = a * 4096 + b * 64 + c"
    using cp by simp
  from lin assms(1) c have lo: "a = 0 \<Longrightarrow> 32 \<le> b"
    by simp
  from lin assms(3) b c have hi: "a = 13 \<Longrightarrow> b < 32"
    by simp
  define s1 where "s1 = utf8_init\<lparr>lower_boundary := (if a = 0 then 0xA0 else 0x80),
      upper_boundary := (if a = 13 then 0x9F else 0xBF), bytes_needed := 2, code_point := a\<rparr>"
  define s2 where "s2 = s1\<lparr>code_point := a * 64 + b, bytes_seen := 1,
      lower_boundary := 0x80, upper_boundary := 0xBF\<rparr>"
  have enc: "utf8_encode_cp cp = [of_nat (0xE0 + a), of_nat (0x80 + b), of_nat (0x80 + c)]"
    using assms by (simp add: utf8_encode_cp_def a_def b_def c_def)
  have u1: "unat (of_nat (0xE0 + a) :: byte) = 0xE0 + a"
    using a by (intro unat_of_nat_byte) simp
  have u2: "unat (of_nat (0x80 + b) :: byte) = 0x80 + b"
    using b by (intro unat_of_nat_byte) simp
  have u3: "unat (of_nat (0x80 + c) :: byte) = 0x80 + c"
    using c by (intro unat_of_nat_byte) simp
  have m1: "(0xE0 + a) mod 16 = a"
    using digits(2) [of a 16 14] a by simp
  have m2: "(0x80 + b) mod 64 = b"
    using digits(2) [of b 64 2] b by simp
  have m3: "(0x80 + c) mod 64 = c"
    using digits(2) [of c 64 2] c by simp
  have l: "utf8_lead (0xE0 + a) = ([], s1)"
    using a by (simp add: utf8_lead_def m1 s1_def)
  have s1: "bytes_needed s1 \<noteq> 0" "lower_boundary s1 \<le> 0x80 + b" "0x80 + b \<le> upper_boundary s1"
    using b lo hi by (auto simp: s1_def utf8_init_def)
  have c1: "utf8_cont s1 (0x80 + b) = ([], s2)"
    by (simp add: utf8_cont_def m2 s1_def s2_def utf8_init_def)
  have s2: "bytes_needed s2 \<noteq> 0" "lower_boundary s2 \<le> 0x80 + c" "0x80 + c \<le> upper_boundary s2"
    using c by (simp_all add: s2_def s1_def utf8_init_def)
  have c2: "utf8_cont s2 (0x80 + c) = ([cp], utf8_init)"
    by (simp add: utf8_cont_def m3 s2_def s1_def utf8_init_def cp [symmetric])
  show ?thesis
    unfolding enc
    by (simp only: append.simps utf8_decode_start [OF u1] l fst_conv snd_conv
        utf8_decode_cont [OF u2 s1] c1 utf8_decode_cont [OF u3 s2] c2)
qed

lemma four_bytes:
  assumes "0x10000 \<le> cp" "cp < 0x110000"
  shows "utf8_decode utf8_init (utf8_encode_cp cp @ rest) = cp # utf8_decode utf8_init rest"
proof -
  define a b c d where "a = cp div 262144" and "b = (cp div 4096) mod 64"
    and "c = (cp div 64) mod 64" and "d = cp mod 64"
  have "cp div 4096 = cp div 64 div 64" "cp div 262144 = cp div 4096 div 64"
    by (simp_all add: div_mult2_eq [symmetric])
  then have "(a * 64 + b) * 64 + c = cp div 64"
    by (simp add: a_def b_def c_def)
  then have cp: "((a * 64 + b) * 64 + c) * 64 + d = cp"
    by (simp add: d_def)
  have a: "a < 5" and b: "b < 64" and c: "c < 64" and d: "d < 64"
    using assms by (simp_all add: a_def b_def c_def d_def)
  have lin: "cp = a * 262144 + b * 4096 + c * 64 + d"
    using cp by simp
  from lin assms(1) c d have lo: "a = 0 \<Longrightarrow> 16 \<le> b"
    by simp
  from lin assms(2) have hi: "a = 4 \<Longrightarrow> b < 16"
    by simp
  define s1 where "s1 = utf8_init\<lparr>lower_boundary := (if a = 0 then 0x90 else 0x80),
      upper_boundary := (if a = 4 then 0x8F else 0xBF), bytes_needed := 3, code_point := a\<rparr>"
  define s2 where "s2 = s1\<lparr>code_point := a * 64 + b, bytes_seen := 1,
      lower_boundary := 0x80, upper_boundary := 0xBF\<rparr>"
  define s3 where "s3 = s2\<lparr>code_point := (a * 64 + b) * 64 + c, bytes_seen := 2,
      lower_boundary := 0x80, upper_boundary := 0xBF\<rparr>"
  have enc: "utf8_encode_cp cp
      = [of_nat (0xF0 + a), of_nat (0x80 + b), of_nat (0x80 + c), of_nat (0x80 + d)]"
    using assms by (simp add: utf8_encode_cp_def a_def b_def c_def d_def)
  have u1: "unat (of_nat (0xF0 + a) :: byte) = 0xF0 + a"
    using a by (intro unat_of_nat_byte) simp
  have u2: "unat (of_nat (0x80 + b) :: byte) = 0x80 + b"
    using b by (intro unat_of_nat_byte) simp
  have u3: "unat (of_nat (0x80 + c) :: byte) = 0x80 + c"
    using c by (intro unat_of_nat_byte) simp
  have u4: "unat (of_nat (0x80 + d) :: byte) = 0x80 + d"
    using d by (intro unat_of_nat_byte) simp
  have m1: "(0xF0 + a) mod 8 = a"
    using digits(2) [of a 8 30] a by simp
  have m2: "(0x80 + b) mod 64 = b"
    using digits(2) [of b 64 2] b by simp
  have m3: "(0x80 + c) mod 64 = c"
    using digits(2) [of c 64 2] c by simp
  have m4: "(0x80 + d) mod 64 = d"
    using digits(2) [of d 64 2] d by simp
  have l: "utf8_lead (0xF0 + a) = ([], s1)"
    using a by (simp add: utf8_lead_def m1 s1_def)
  have s1: "bytes_needed s1 \<noteq> 0" "lower_boundary s1 \<le> 0x80 + b" "0x80 + b \<le> upper_boundary s1"
    using b lo hi by (auto simp: s1_def utf8_init_def)
  have c1: "utf8_cont s1 (0x80 + b) = ([], s2)"
    by (simp add: utf8_cont_def m2 s1_def s2_def utf8_init_def)
  have s2: "bytes_needed s2 \<noteq> 0" "lower_boundary s2 \<le> 0x80 + c" "0x80 + c \<le> upper_boundary s2"
    using c by (simp_all add: s2_def s1_def utf8_init_def)
  have c2: "utf8_cont s2 (0x80 + c) = ([], s3)"
    by (simp add: utf8_cont_def m3 s3_def s2_def s1_def utf8_init_def)
  have s3: "bytes_needed s3 \<noteq> 0" "lower_boundary s3 \<le> 0x80 + d" "0x80 + d \<le> upper_boundary s3"
    using d by (simp_all add: s3_def s2_def s1_def utf8_init_def)
  have c3: "utf8_cont s3 (0x80 + d) = ([cp], utf8_init)"
    by (simp add: utf8_cont_def m4 s3_def s2_def s1_def utf8_init_def cp [symmetric])
  show ?thesis
    unfolding enc
    by (simp only: append.simps utf8_decode_start [OF u1] l fst_conv snd_conv
        utf8_decode_cont [OF u2 s1] c1 utf8_decode_cont [OF u3 s2] c2
        utf8_decode_cont [OF u4 s3] c3)
qed

lemma utf8_decode_encode_cp:
  assumes "isScalarValue cp"
  shows "utf8_decode utf8_init (utf8_encode_cp cp @ rest) = cp # utf8_decode utf8_init rest"
proof -
  from assms consider (one) "cp < 0x80" | (two) "0x80 \<le> cp" "cp < 0x800"
    | (three) "0x800 \<le> cp" "cp < 0x10000" "\<not> (0xD800 \<le> cp \<and> cp \<le> 0xDFFF)"
    | (four) "0x10000 \<le> cp" "cp < 0x110000"
    unfolding isScalarValue_def by linarith
  then show ?thesis
  proof cases
    case one
    then show ?thesis by (rule one_byte)
  next
    case two
    then show ?thesis by (rule two_bytes)
  next
    case three
    then show ?thesis by (rule three_bytes)
  next
    case four
    then show ?thesis by (rule four_bytes)
  qed
qed

lemma utf8_decode_encode:
  "\<forall>cp\<in>set cps. isScalarValue cp \<Longrightarrow>
   utf8_decode utf8_init (concat (map utf8_encode_cp cps)) = cps"
proof (induction cps)
  case Nil
  show ?case by (simp add: utf8_init_def)
next
  case (Cons cp cps)
  then show ?case by (simp add: utf8_decode_encode_cp)
qed


subsection \<open>Strings to scalar values and back\<close>

lemma unat_unit_less: "unat (c :: 16 word) < 65536"
  using unsigned_less [of c, where 'a = nat] by simp

lemma surrogate_nat:
  "isLeadSurrogate c \<longleftrightarrow> 0xD800 \<le> unat c \<and> unat c \<le> 0xDBFF"
  "isTrailSurrogate c \<longleftrightarrow> 0xDC00 \<le> unat c \<and> unat c \<le> 0xDFFF"
  by (simp_all add: isLeadSurrogate_def isTrailSurrogate_def word_le_nat_alt)

lemma unit_scalar:
  "\<not> isLeadSurrogate c \<Longrightarrow> \<not> isTrailSurrogate c \<Longrightarrow> isScalarValue (unat c)"
  using unat_unit_less [of c] by (auto simp: surrogate_nat isScalarValue_def)

lemma pair_scalar:
  assumes "isLeadSurrogate c" "isTrailSurrogate d"
  shows "isScalarValue (0x10000 + (unat c - 0xD800) * 0x400 + (unat d - 0xDC00))"
proof -
  from assms have "unat c - 0xD800 \<le> 0x3FF" "unat d - 0xDC00 \<le> 0x3FF"
    by (auto simp: surrogate_nat)
  then show ?thesis
    by (simp add: isScalarValue_def)
qed

lemma replacement_scalar: "isScalarValue 0xFFFD"
  by (simp add: isScalarValue_def)

lemma to_scalars_scalar: "\<forall>cp\<in>set (to_scalars s). isScalarValue cp"
  by (induction s rule: to_scalars.induct)
    (auto simp: unit_scalar pair_scalar replacement_scalar)

lemma from_scalar_unit: "from_scalar (unat c) = [c]" for c :: "16 word"
  using unat_unit_less [of c] by (simp add: from_scalar_def)

lemma from_scalar_pair:
  assumes "isLeadSurrogate c" "isTrailSurrogate d"
  shows "from_scalar (0x10000 + (unat c - 0xD800) * 0x400 + (unat d - 0xDC00)) = [c, d]"
proof -
  define h l where "h = unat c - 0xD800" and "l = unat d - 0xDC00"
  from assms have l: "l < 0x400" and c: "0xD800 + h = unat c" and d: "0xDC00 + l = unat d"
    by (auto simp: surrogate_nat h_def l_def)
  have "(h * 0x400 + l) div 0x400 = h" "(h * 0x400 + l) mod 0x400 = l"
    using l by (simp_all only: digits)
  then have "from_scalar (0x10000 + h * 0x400 + l) = [of_nat (0xD800 + h), of_nat (0xDC00 + l)]"
    by (simp add: from_scalar_def)
  then show ?thesis
    unfolding c d by (simp add: h_def l_def)
qed

lemma from_scalar_to_scalars:
  "isWellFormed s \<Longrightarrow> concat (map from_scalar (to_scalars s)) = s"
  by (induction s rule: to_scalars.induct)
    (auto simp: from_scalar_unit from_scalar_pair split: if_splits)

lemma drop_bom_to_scalars:
  assumes "s = [] \<or> hd s \<noteq> 0xFEFF"
  shows "drop_bom (to_scalars s) = to_scalars s"
proof (cases s rule: to_scalars.cases)
  case 1
  then show ?thesis by simp
next
  case (2 c)
  with assms have "unat c \<noteq> 0xFEFF"
    by (auto simp: word_unat_eq_iff)
  with 2 show ?thesis by simp
next
  case (3 c d rest)
  with assms have "unat c \<noteq> 0xFEFF"
    by (auto simp: word_unat_eq_iff)
  with 3 show ?thesis by simp
qed

lemma arrayBufferToText_textToArrayBuffer:
  "arrayBufferToText (textToArrayBuffer s) = concat (map from_scalar (drop_bom (to_scalars s)))"
  by (simp add: arrayBufferToText_def textToArrayBuffer_def utf8_decode_encode to_scalars_scalar)

lemma text_roundtrip:
  "isWellFormed s \<Longrightarrow> s = [] \<or> hd s \<noteq> 0xFEFF \<Longrightarrow>
   arrayBufferToText (textToArrayBuffer s) = s"
  by (simp only: arrayBufferToText_textToArrayBuffer drop_bom_to_scalars from_scalar_to_scalars)

subsection \<open>Encrypting and decrypting a message\<close>

lemma encryptMessage_eq:
  "encryptMessage crypto K nonce P
     = Inr (b64encode (map unat (encrypt crypto K nonce (textToArrayBuffer P))),
            b64encode (map unat nonce))"
  by (simp add: encryptMessage_def arrayBufferToB64_eq Let_def)

lemma decryptMessage_part002_encoded:
  "decryptMessage_part002 crypto K (b64encode (map unat c)) (b64encode (map unat nonce))
     = (case decrypt crypto K nonce c of
          None \<Rightarrow> Inl OperationError
        | Some plain \<Rightarrow> Inr (arrayBufferToText plain))"
  by (simp add: decryptMessage_part002_def b64ToArrayBuffer_b64encode)

lemma decrypt_encrypted:
  assumes "decrypts_own crypto"
  shows "decryptMessage_part002 crypto K
           (b64encode (map unat (encrypt crypto K nonce (textToArrayBuffer P))))
           (b64encode (map unat nonce))
         = Inr (arrayBufferToText (textToArrayBuffer P))"
  using assms by (simp add: decryptMessage_part002_encoded decrypts_own_def)

lemma toy_decrypts_own: "decrypts_own toy_subtle"
  by (simp add: decrypts_own_def toy_subtle_def)


subsection \<open>The stand-in provider on concrete messages\<close>

lemma example_nonce_b64: "b64encode (map unat example_nonce) = js ''AQIDBAUGBwgJCgsM''"
  by (simp add: example_nonce_def b64char_def js_def)

lemma toy_encrypt_hi:
  "b64encode (map unat (encrypt toy_subtle 7 example_nonce (textToArrayBuffer (js ''hi'')))) = js ''aGkK''"
  by (simp add: example_nonce_def toy_subtle_def xor_tag_def textToArrayBuffer_def js_def
      isLeadSurrogate_def isTrailSurrogate_def utf8_encode_cp_def b64char_def)

lemma toy_encrypt_lone_surrogate:
  "b64encode (map unat (encrypt toy_subtle 7 example_nonce (textToArrayBuffer [0xD800]))) = js ''77+95g==''"
  by (simp add: example_nonce_def toy_subtle_def xor_tag_def textToArrayBuffer_def js_def
      isLeadSurrogate_def isTrailSurrogate_def utf8_encode_cp_def b64char_def)

lemma toy_encrypt_bom:
  "b64encode (map unat (encrypt toy_subtle 7 example_nonce (textToArrayBuffer (0xFEFF # js ''hi''))))
     = js ''77u/aGnh''"
  by (simp add: example_nonce_def toy_subtle_def xor_tag_def textToArrayBuffer_def js_def
      isLeadSurrogate_def isTrailSurrogate_def utf8_encode_cp_def b64char_def)

lemma toy_encrypt_empty:
  "b64encode (map unat (encrypt toy_subtle 7 example_nonce (textToArrayBuffer []))) = js ''Cw==''"
  by (simp add: example_nonce_def toy_subtle_def xor_tag_def textToArrayBuffer_def js_def
      b64char_def)

lemma lone_surrogate_text: "arrayBufferToText (textToArrayBuffer [0xD800]) = [0xFFFD]"
  by (simp add: arrayBufferToText_textToArrayBuffer isLeadSurrogate_def from_scalar_def)

lemma bom_text: "arrayBufferToText (textToArrayBuffer (0xFEFF # js ''hi'')) = js ''hi''"
  by (simp add: arrayBufferToText_textToArrayBuffer isLeadSurrogate_def isTrailSurrogate_def
      from_scalar_def js_def)

lemma atob_C7: "b64ToArrayBuffer (js ''C7=='') = Inr [11]"
  by (simp add: b64ToArrayBuffer_def atob_def isAsciiWhitespace_def strip_padding_def b64val_def
      js_def Let_def)

lemma one_bit_C7: "(js ''Cw=='')[1 := (js ''Cw=='' ! 1) XOR 0x40] = js ''C7==''"
  by (simp add: js_def)

lemma toy_decrypt_hi:
  "decryptMessage_part002 toy_subtle 7 (js ''aGkK'') (js ''AQIDBAUGBwgJCgsM'') = Inr (js ''hi'')"
proof -
  have "arrayBufferToText (textToArrayBuffer (js ''hi'')) = js ''hi''"
    by (rule text_roundtrip) (simp_all add: js_def isLeadSurrogate_def isTrailSurrogate_def)
  with decrypt_encrypted [OF toy_decrypts_own, of 7 example_nonce "js ''hi''"]
  show ?thesis
    by (simp only: toy_encrypt_hi example_nonce_b64)
qed

text \<open>
  C1, as the code has it. For a provider whose decryption gives back what it encrypted,
  every key and nonce, and every plaintext that is a well-formed string (no lone
  surrogate) and does not begin with U+FEFF: \<^verbatim>\<open>encryptMessage\<close> returns a pair, and
  \<^verbatim>\<open>decryptMessage\<close> (either version) on that pair returns exactly the plaintext.
\<close>

theorem encrypt_then_decrypt:
  assumes "decrypts_own crypto" and "isWellFormed P" and "P = [] \<or> hd P \<noteq> 0xFEFF"
  shows "\<exists>ct_text iv_text.
           encryptMessage crypto K nonce P = Inr (ct_text, iv_text)
           \<and> decryptMessage crypto K ct_text iv_text = Inr P
           \<and> decryptMessage_part002 crypto K ct_text iv_text = Inr P"
proof -
  have "decryptMessage_part002 crypto K
          (b64encode (map unat (encrypt crypto K nonce (textToArrayBuffer P))))
          (b64encode (map unat nonce)) = Inr P"
    using decrypt_encrypted [OF assms(1)] text_roundtrip [OF assms(2,3)] by simp
  then show ?thesis
    by (simp add: encryptMessage_eq decryptMessage_def)
qed

theorem encrypt_then_decrypt_witness:
  "decrypts_own toy_subtle \<and> isWellFormed (js ''hi'')
   \<and> encryptMessage toy_subtle 7 example_nonce (js ''hi'') = Inr (js ''aGkK'', js ''AQIDBAUGBwgJCgsM'')
   \<and> decryptMessage toy_subtle 7 (js ''aGkK'') (js ''AQIDBAUGBwgJCgsM'') = Inr (js ''hi'')
   \<and> decryptMessage_part002 toy_subtle 7 (js ''aGkK'') (js ''AQIDBAUGBwgJCgsM'') = Inr (js ''hi'')"
proof -
  have wf: "isWellFormed (js ''hi'')"
    by (simp add: js_def isLeadSurrogate_def isTrailSurrogate_def)
  have nb: "js ''hi'' = [] \<or> hd (js ''hi'') \<noteq> 0xFEFF"
    by (simp add: js_def)
  have enc: "encryptMessage toy_subtle 7 example_nonce (js ''hi'')
      = Inr (js ''aGkK'', js ''AQIDBAUGBwgJCgsM'')"
    by (simp only: encryptMessage_eq toy_encrypt_hi example_nonce_b64)
  from encrypt_then_decrypt [OF toy_decrypts_own wf nb, of 7 example_nonce] enc
  have "decryptMessage toy_subtle 7 (js ''aGkK'') (js ''AQIDBAUGBwgJCgsM'') = Inr (js ''hi'')
   \<and> decryptMessage_part002 toy_subtle 7 (js ''aGkK'') (js ''AQIDBAUGBwgJCgsM'') = Inr (js ''hi'')"
    by auto
  with toy_decrypts_own wf enc show ?thesis
    by simp
qed

text \<open>
  C1 as stated fails: a lone surrogate comes back as U+FFFD, and a leading U+FEFF is
  lost. Here with the stand-in provider; by \<open>decrypt_encrypted\<close> and
  \<open>arrayBufferToText_textToArrayBuffer\<close> every provider that decrypts what it encrypted
  gives the same two plaintexts back.
\<close>

theorem roundtrip_counterexample:
  "encryptMessage toy_subtle 7 example_nonce [0xD800] = Inr (js ''77+95g=='', js ''AQIDBAUGBwgJCgsM'')
   \<and> decryptMessage toy_subtle 7 (js ''77+95g=='') (js ''AQIDBAUGBwgJCgsM'') = Inr [0xFFFD]
   \<and> encryptMessage toy_subtle 7 example_nonce (0xFEFF # js ''hi'')
       = Inr (js ''77u/aGnh'', js ''AQIDBAUGBwgJCgsM'')
   \<and> decryptMessage toy_subtle 7 (js ''77u/aGnh'') (js ''AQIDBAUGBwgJCgsM'') = Inr (js ''hi'')"
proof -
  have a: "encryptMessage toy_subtle 7 example_nonce [0xD800]
      = Inr (js ''77+95g=='', js ''AQIDBAUGBwgJCgsM'')"
    by (simp only: encryptMessage_eq toy_encrypt_lone_surrogate example_nonce_b64)
  have b: "decryptMessage toy_subtle 7 (js ''77+95g=='') (js ''AQIDBAUGBwgJCgsM'') = Inr [0xFFFD]"
    using decrypt_encrypted [OF toy_decrypts_own, of 7 example_nonce "[0xD800]"]
    by (simp add: toy_encrypt_lone_surrogate example_nonce_b64 lone_surrogate_text
        decryptMessage_def)
  have c: "encryptMessage toy_subtle 7 example_nonce (0xFEFF # js ''hi'')
      = Inr (js ''77u/aGnh'', js ''AQIDBAUGBwgJCgsM'')"
    by (simp only: encryptMessage_eq toy_encrypt_bom example_nonce_b64)
  have d: "decryptMessage toy_subtle 7 (js ''77u/aGnh'') (js ''AQIDBAUGBwgJCgsM'') = Inr (js ''hi'')"
    using decrypt_encrypted [OF toy_decrypts_own, of 7 example_nonce "0xFEFF # js ''hi''"]
    by (simp add: toy_encrypt_bom example_nonce_b64 bom_text decryptMessage_def)
  from a b c d show ?thesis by (intro conjI)
qed

section \<open>The local durable cache: proofs\<close>










section \<open>Sorting with a comparator: proofs\<close>

lemma set_insert_sorted: "set (insert_sorted c x ys) = insert x (set ys)"
  by (induction ys) auto

lemma distinct_insert_sorted: "distinct (insert_sorted c x ys) \<longleftrightarrow> x \<notin> set ys \<and> distinct ys"
  by (induction ys) (auto simp: set_insert_sorted)

lemma array_sort_Cons: "array_sort c (x # xs) = insert_sorted c x (array_sort c xs)"
  by (simp add: array_sort_def)

lemma set_array_sort: "set (array_sort c xs) = set xs"
  by (induction xs) (simp_all add: array_sort_Cons set_insert_sorted, simp add: array_sort_def)

lemma distinct_array_sort: "distinct (array_sort c xs) = distinct xs"
  by (induction xs)
    (simp_all add: array_sort_Cons distinct_insert_sorted set_array_sort, simp add: array_sort_def)

lemma distinct_map_array_sort: "distinct (map g (array_sort c xs)) = distinct (map g xs)"
  by (simp add: distinct_map set_array_sort distinct_array_sort)





lemma ordered_Nil: "ordered conv []"
  by (simp add: ordered_def)



section \<open>The message stream of Chat.tsx: proofs\<close>

subsection \<open>What holds of every message list of the cache is kept by its writers\<close>

lemma list_all_put:
  "list_all P kvs \<Longrightarrow> P (k, v) \<Longrightarrow> list_all P (put k v kvs)"
  by (induction kvs) auto

lemma cache_all_setItem:
  "cache_all P (Some st) \<Longrightarrow> (case v of MessagesDoc ms t \<Rightarrow> P ms | _ \<Rightarrow> True) \<Longrightarrow>
   setItem k v st = Inr st' \<Longrightarrow> cache_all P (Some st')"
  by (auto simp: cache_all_def setItem_def list_all_put split: option.splits)

lemma cache_all_removeItem: "cache_all P (Some st) \<Longrightarrow> cache_all P (Some (removeItem k st))"
  by (simp add: cache_all_def removeItem_def list_all_iff)

lemma cache_all_fold_removeItem:
  "cache_all P (Some st) \<Longrightarrow> cache_all P (Some (fold removeItem ks st))"
  by (induction ks arbitrary: st) (simp_all add: cache_all_removeItem)

lemma cache_all_saveMessagesToCache:
  assumes "cache_all P storage" "P msgs"
  shows "cache_all P (snd (saveMessagesToCache chat msgs t t' storage))"
proof (cases storage)
  case None
  then show ?thesis by (simp add: saveMessagesToCache_def cache_all_def)
next
  case (Some st)
  with assms(1) have ok: "cache_all P (Some st)" by simp
  have doc: "case MessagesDoc msgs u of MessagesDoc ms t \<Rightarrow> P ms | _ \<Rightarrow> True" for u
    using assms(2) by simp
  show ?thesis
    unfolding Some saveMessagesToCache_def Let_def
    by (auto simp del: fun_upd_apply split: sum.splits
        intro: ok cache_all_setItem [OF ok doc] cache_all_fold_removeItem [OF ok]
          cache_all_setItem [OF cache_all_fold_removeItem [OF ok] doc])
qed

lemma cache_all_saveContactsToCache:
  assumes "cache_all P storage"
  shows "cache_all P (snd (saveContactsToCache user cs t storage))"
proof (cases storage)
  case None
  then show ?thesis by (simp add: saveContactsToCache_def cache_all_def)
next
  case (Some st)
  with assms have ok: "cache_all P (Some st)" by simp
  have doc: "case ContactsDoc cs t of MessagesDoc ms t \<Rightarrow> P ms | _ \<Rightarrow> True"
    by simp
  show ?thesis
    unfolding Some saveContactsToCache_def
    by (auto split: sum.splits intro: ok cache_all_setItem [OF ok doc])
qed

lemma cache_all_load:
  assumes "cache_all P storage" "loadMessagesFromCache chat storage = Some msgs"
  shows "P msgs"
proof -
  from assms(2) obtain st t where st: "storage = Some st"
    and g: "getItem (MESSAGES_KEY_PREFIX @ chat) st = Some (MessagesDoc msgs t)"
    by (auto simp: loadMessagesFromCache_def split: option.splits stored.splits)
  from g have "(MESSAGES_KEY_PREFIX @ chat, MessagesDoc msgs t) \<in> set (items st)"
    by (simp add: getItem_def map_of_SomeD)
  with assms(1) st show ?thesis
    by (auto simp: cache_all_def list_all_iff)
qed

subsection \<open>What holds of the timeline and of the cache is kept by the handlers\<close>

text \<open>
  For a property \<open>P\<close> of message lists that the empty list has: when \<open>P\<close> holds of the
  timeline and of every list of the cache, and inserting the message of a feed entry
  into a list with \<open>P\<close> gives a list with \<open>P\<close>, then \<open>P\<close> holds of both afterwards.
\<close>

lemma lists_handleMessage:
  assumes "P (messages st)" "cache_all P (localStorage st)"
    and "\<And>m. msg = Some m \<Longrightarrow> \<not> list_ex (\<lambda>m'. key m' = Some k) (messages st) \<Longrightarrow>
           P (array_sort (by_timestamp conv) (messages st @ [m\<lparr>key := Some k\<rparr>]))"
  shows "P (messages (handleMessage conv chat msg k st))
       \<and> cache_all P (localStorage (handleMessage conv chat msg k st))"
proof (cases "\<exists>m. msg = Some m \<and> k \<noteq> [] \<and> k \<notin> renderedMessageKeys st
    \<and> \<not> list_ex (\<lambda>m'. key m' = Some k) (messages st)")
  case False
  then have "messages (handleMessage conv chat msg k st) = messages st"
    and "localStorage (handleMessage conv chat msg k st) = localStorage st"
    by (auto simp: handleMessage_def Let_def split: option.splits)
  with assms(1,2) show ?thesis by simp
next
  case True
  then obtain m where m: "msg = Some m" "k \<noteq> []" "k \<notin> renderedMessageKeys st"
    "\<not> list_ex (\<lambda>m'. key m' = Some k) (messages st)"
    by blast
  let ?new = "array_sort (by_timestamp conv) (messages st @ [m\<lparr>key := Some k\<rparr>])"
  have new: "P ?new"
    using m(1,4) by (rule assms(3))
  have "cache_all P (snd (saveMessagesToCache (session_id chat) ?new (now st) (now st)
      (localStorage st)))"
    using assms(2) new by (rule cache_all_saveMessagesToCache)
  with m new show ?thesis
    by (simp add: handleMessage_def Let_def)
qed

lemma messages_persistEffect: "messages (persistEffect chat msgs st) = messages st"
  by (simp add: persistEffect_def split: option.splits)

lemma cache_persistEffect:
  "cache_all P (localStorage st) \<Longrightarrow> P msgs \<Longrightarrow>
   cache_all P (localStorage (persistEffect chat msgs st))"
  using cache_all_saveMessagesToCache [of P "localStorage st" msgs]
  by (auto simp: persistEffect_def split: option.splits)

lemma lists_messagesEffect:
  assumes "P []" "P (messages st)" "cache_all P (localStorage st)"
  shows "P (messages (messagesEffect st)) \<and> localStorage (messagesEffect st) = localStorage st"
  using assms cache_all_load [OF assms(3)]
  by (auto simp: messagesEffect_def Let_def split: option.splits)

lemma lists_afterSetCurrentChat:
  assumes "P []" "P (messages st)" "cache_all P (localStorage st)"
  shows "P (messages (afterSetCurrentChat st))
       \<and> cache_all P (localStorage (afterSetCurrentChat st))"
proof -
  let ?st0 = "messagesCleanup st"
  let ?st1 = "messagesEffect ?st0"
  let ?st2 = "persistEffect (currentChat st) (messages st) ?st1"
  have zero: "P (messages ?st0)" "cache_all P (localStorage ?st0)"
    using assms by (simp_all add: messagesCleanup_def)
  have one: "P (messages ?st1)" "cache_all P (localStorage ?st1)"
    using lists_messagesEffect [OF assms(1) zero] zero(2) by simp_all
  have two: "P (messages ?st2)" "cache_all P (localStorage ?st2)"
    using one assms(2) by (simp_all add: messages_persistEffect cache_persistEffect)
  have three: "P (messages (persistEffect c (messages ?st2) ?st2))"
    "cache_all P (localStorage (persistEffect c (messages ?st2) ?st2))" for c
    using two by (simp_all only: messages_persistEffect cache_persistEffect)
  show ?thesis
    using two three by (simp add: afterSetCurrentChat_def Let_def)
qed

lemma lists_selectChat:
  assumes "P []" "P (messages st)" "cache_all P (localStorage st)"
  shows "P (messages (selectChat c st)) \<and> cache_all P (localStorage (selectChat c st))"
  unfolding selectChat_def using assms by (intro lists_afterSetCurrentChat) simp_all

lemma lists_feed:
  assumes "P (messages st)" "cache_all P (localStorage st)"
    and "\<And>m prev. msg = Some m \<Longrightarrow> P prev \<Longrightarrow> \<not> list_ex (\<lambda>m'. key m' = Some k) prev \<Longrightarrow>
           P (array_sort (by_timestamp conv) (prev @ [m\<lparr>key := Some k\<rparr>]))"
  shows "P (messages (feed conv chat msg k st)) \<and> cache_all P (localStorage (feed conv chat msg k st))"
proof -
  have h: "P (messages (handleMessage conv c msg k st))
      \<and> cache_all P (localStorage (handleMessage conv c msg k st))" for c
    using assms(1,2) by (rule lists_handleMessage) (rule assms(3) [OF _ assms(1)])
  then have "P (messages (persistEffect c' (messages (handleMessage conv c msg k st))
        (handleMessage conv c msg k st)))
      \<and> cache_all P (localStorage (persistEffect c' (messages (handleMessage conv c msg k st))
        (handleMessage conv c msg k st)))" for c c'
    by (simp add: messages_persistEffect cache_persistEffect)
  with h assms(1,2) show ?thesis
    by (simp add: feed_def Let_def split: option.splits)
qed

lemma lists_step:
  assumes "P []" "P (messages st)" "cache_all P (localStorage st)"
    and "\<And>ch m k prev. ev = Feed ch (Some m) k \<Longrightarrow> P prev \<Longrightarrow>
           \<not> list_ex (\<lambda>m'. key m' = Some k) prev \<Longrightarrow>
           P (array_sort (by_timestamp conv) (prev @ [m\<lparr>key := Some k\<rparr>]))"
  shows "P (messages (chat_step conv st ev)) \<and> cache_all P (localStorage (chat_step conv st ev))"
proof (cases ev)
  case (SelectChat c)
  with assms(1-3) show ?thesis
    by (simp add: lists_selectChat)
next
  case (Feed ch msg k)
  have "P (messages (feed conv ch msg k st)) \<and> cache_all P (localStorage (feed conv ch msg k st))"
    using assms(2,3) by (rule lists_feed) (rule assms(4), simp_all add: Feed)
  with Feed show ?thesis by simp
next
  case (ContactsSaved cs)
  with assms(2,3) show ?thesis
    by (simp add: cache_all_saveContactsToCache)
next
  case (Tick n)
  with assms(2,3) show ?thesis by simp
qed


subsection \<open>The timeline stays free of duplicates\<close>

lemma distinct_keys_insert:
  assumes "distinct (map key prev)" "\<not> list_ex (\<lambda>m'. key m' = Some k) prev"
  shows "distinct (map key (array_sort c (prev @ [m\<lparr>key := Some k\<rparr>])))"
proof -
  from assms(2) have "Some k \<notin> key ` set prev"
    by (auto simp: list_ex_iff)
  with assms(1) show ?thesis
    by (simp add: distinct_map_array_sort)
qed

lemma cached_keys_subset: "k \<in> cached_keys msgs \<Longrightarrow> Some k \<in> key ` set msgs"
  by (auto simp: cached_keys_def split: option.splits if_splits)

lemma rendered_in_handleMessage:
  assumes "\<forall>k'\<in>renderedMessageKeys st. Some k' \<in> key ` set (messages st)"
  shows "\<forall>k'\<in>renderedMessageKeys (handleMessage conv chat msg k st).
           Some k' \<in> key ` set (messages (handleMessage conv chat msg k st))"
proof (cases "\<exists>m. msg = Some m \<and> k \<noteq> [] \<and> k \<notin> renderedMessageKeys st")
  case False
  then have "handleMessage conv chat msg k st = st"
    by (auto simp: handleMessage_def split: option.splits)
  with assms show ?thesis by simp
next
  case True
  then obtain m where m: "msg = Some m" "k \<noteq> []" "k \<notin> renderedMessageKeys st"
    by blast
  show ?thesis
  proof (cases "list_ex (\<lambda>m'. key m' = Some k) (messages st)")
    case True
    then have "Some k \<in> key ` set (messages st)"
      by (auto simp: list_ex_iff intro: rev_image_eqI)
    with assms m True show ?thesis
      by (simp add: handleMessage_def)
  next
    case False
    with assms m show ?thesis
      by (auto simp: handleMessage_def Let_def set_array_sort)
  qed
qed

lemma rendered_persistEffect: "renderedMessageKeys (persistEffect chat msgs st) = renderedMessageKeys st"
  by (simp add: persistEffect_def split: option.splits)

lemma rendered_in_messagesEffect:
  assumes "\<forall>k'\<in>renderedMessageKeys st. Some k' \<in> key ` set (messages st)"
  shows "\<forall>k'\<in>renderedMessageKeys (messagesEffect st). Some k' \<in> key ` set (messages (messagesEffect st))"
  using assms by (auto simp: messagesEffect_def Let_def dest: cached_keys_subset split: option.splits)

lemma rendered_in_selectChat:
  assumes "\<forall>k'\<in>renderedMessageKeys st. Some k' \<in> key ` set (messages st)"
  shows "\<forall>k'\<in>renderedMessageKeys (selectChat c st). Some k' \<in> key ` set (messages (selectChat c st))"
proof -
  let ?st = "messagesCleanup (st\<lparr>currentChat := Some \<lparr>partner = username c, session_id = chatId c\<rparr>,
                 mobileSidebarOpen := False\<rparr>)"
  have "\<forall>k'\<in>renderedMessageKeys ?st. Some k' \<in> key ` set (messages ?st)"
    using assms by (simp add: messagesCleanup_def)
  then have "\<forall>k'\<in>renderedMessageKeys (messagesEffect ?st).
      Some k' \<in> key ` set (messages (messagesEffect ?st))"
    by (rule rendered_in_messagesEffect)
  then show ?thesis
    by (simp add: selectChat_def afterSetCurrentChat_def Let_def rendered_persistEffect
        messages_persistEffect)
qed

lemma rendered_in_feed:
  assumes "\<forall>k'\<in>renderedMessageKeys st. Some k' \<in> key ` set (messages st)"
  shows "\<forall>k'\<in>renderedMessageKeys (feed conv chat msg k st).
           Some k' \<in> key ` set (messages (feed conv chat msg k st))"
proof -
  have "feed conv chat msg k st = st
      \<or> (\<exists>c. messages (feed conv chat msg k st) = messages (handleMessage conv c msg k st)
            \<and> renderedMessageKeys (feed conv chat msg k st)
                = renderedMessageKeys (handleMessage conv c msg k st))"
  proof (cases "listening st")
    case None
    then show ?thesis by (simp add: feed_def)
  next
    case (Some c)
    show ?thesis
    proof (cases "session_id c = chat")
      case True
      with Some have "messages (feed conv chat msg k st) = messages (handleMessage conv c msg k st)
          \<and> renderedMessageKeys (feed conv chat msg k st)
              = renderedMessageKeys (handleMessage conv c msg k st)"
        by (simp add: feed_def Let_def rendered_persistEffect messages_persistEffect)
      then show ?thesis by blast
    next
      case False
      with Some show ?thesis by (simp add: feed_def)
    qed
  qed
  then show ?thesis
    using assms rendered_in_handleMessage [OF assms, of conv _ msg k] by auto
qed

lemma rendered_in_step:
  assumes "\<forall>k'\<in>renderedMessageKeys st. Some k' \<in> key ` set (messages st)"
  shows "\<forall>k'\<in>renderedMessageKeys (chat_step conv st ev).
           Some k' \<in> key ` set (messages (chat_step conv st ev))"
  using assms rendered_in_selectChat [OF assms] rendered_in_feed [OF assms]
  by (cases ev) simp_all

lemma chat_inv_step:
  assumes "chat_inv st"
  shows "chat_inv (chat_step conv st ev)"
proof -
  from assms have a: "distinct (map key (messages st))"
    and b: "\<forall>k'\<in>renderedMessageKeys st. Some k' \<in> key ` set (messages st)"
    and c: "cache_all (\<lambda>ms. distinct (map key ms)) (localStorage st)"
    by (simp_all add: chat_inv_def cache_ok_def)
  have "distinct (map key (messages (chat_step conv st ev)))
      \<and> cache_all (\<lambda>ms. distinct (map key ms)) (localStorage (chat_step conv st ev))"
    using _ a c by (rule lists_step) (simp_all add: distinct_keys_insert)
  with rendered_in_step [OF b] show ?thesis
    by (simp add: chat_inv_def cache_ok_def)
qed

lemma chat_inv_run: "chat_inv st \<Longrightarrow> chat_inv (chat_run conv st evs)"
  unfolding chat_run_def by (induction evs arbitrary: st) (simp_all add: chat_inv_step)

lemma chat_inv_feed: "chat_inv st \<Longrightarrow> chat_inv (feed conv chat msg k st)"
  using chat_inv_step [of st conv "Feed chat msg k"] by simp

lemma chat_inv_selectChat: "chat_inv st \<Longrightarrow> chat_inv (selectChat c st)"
  using chat_inv_step [of st conv "SelectChat c"] by simp

lemma chat_inv_messagesEffect:
  assumes "chat_inv st"
  shows "chat_inv (messagesEffect st)"
proof -
  from assms have a: "distinct (map key (messages st))"
    and b: "\<forall>k'\<in>renderedMessageKeys st. Some k' \<in> key ` set (messages st)"
    and c: "cache_all (\<lambda>ms. distinct (map key ms)) (localStorage st)"
    by (simp_all add: chat_inv_def cache_ok_def)
  have "distinct (map key (messages (messagesEffect st)))
      \<and> localStorage (messagesEffect st) = localStorage st"
    using _ a c by (rule lists_messagesEffect) simp
  with rendered_in_messagesEffect [OF b] c show ?thesis
    by (simp add: chat_inv_def cache_ok_def)
qed

lemma chat_inv_mounted: "cache_ok storage \<Longrightarrow> chat_inv (chat_mounted user storage g t)"
  by (simp add: chat_inv_def chat_mounted_def)

subsection \<open>With numbers for time stamps the timeline stays in ascending order\<close>





subsection \<open>Equal time stamps keep the order of insertion\<close>



lemma listening_persistEffect: "listening (persistEffect chat msgs st) = listening st"
  by (simp add: persistEffect_def split: option.splits)

lemma listening_handleMessage: "listening (handleMessage conv chat msg k st) = listening st"
  by (simp add: handleMessage_def Let_def split: option.splits)

lemma listening_feed: "listening (feed conv chat msg k st) = listening st"
  by (simp add: feed_def Let_def listening_persistEffect listening_handleMessage split: option.splits)



subsection \<open>A key that was delivered stays rendered once\<close>

lemma rendered_handleMessage:
  "renderedMessageKeys st \<subseteq> renderedMessageKeys (handleMessage conv chat msg k st)"
  by (auto simp: handleMessage_def Let_def split: option.splits)

lemma rendered_handleMessage_key:
  "k \<noteq> [] \<Longrightarrow> k \<in> renderedMessageKeys (handleMessage conv chat (Some m) k st)"
  by (auto simp: handleMessage_def Let_def)

lemma rendered_feed: "renderedMessageKeys st \<subseteq> renderedMessageKeys (feed conv chat msg k st)"
  using rendered_handleMessage
  by (auto simp: feed_def Let_def rendered_persistEffect split: option.splits)

lemma rendered_feed_key:
  "listening st = Some c \<Longrightarrow> k \<noteq> [] \<Longrightarrow>
   k \<in> renderedMessageKeys (feed conv (session_id c) (Some m) k st)"
  by (simp add: feed_def Let_def rendered_persistEffect rendered_handleMessage_key)

lemma rendered_feeds:
  "renderedMessageKeys st
     \<subseteq> renderedMessageKeys (chat_run conv st (map (\<lambda>(ch, msg, k'). Feed ch msg k') entries))"
proof (induction entries arbitrary: st)
  case Nil
  then show ?case by (simp add: chat_run_def)
next
  case (Cons e entries)
  obtain ch msg k' where e: "e = (ch, msg, k')" by (cases e)
  show ?case
    using Cons.IH [of "feed conv ch msg k' st"] rendered_feed [of st conv ch msg k']
    by (auto simp: chat_run_def e)
qed

lemma listening_feeds:
  "listening (chat_run conv st (map (\<lambda>(ch, msg, k'). Feed ch msg k') entries)) = listening st"
proof (induction entries arbitrary: st)
  case Nil
  then show ?case by (simp add: chat_run_def)
next
  case (Cons e entries)
  obtain ch msg k' where e: "e = (ch, msg, k')" by (cases e)
  show ?case
    using Cons.IH [of "feed conv ch msg k' st"]
    by (simp add: chat_run_def e listening_feed)
qed

lemma once_if_distinct:
  "distinct (map f xs) \<Longrightarrow> y \<in> set (map f xs) \<Longrightarrow> length (filter (\<lambda>x. f x = y) xs) = 1"
  by (induction xs) (auto simp: filter_empty_conv image_iff)

lemma rendered_once:
  assumes "chat_inv st" "k \<in> renderedMessageKeys st"
  shows "length (filter (\<lambda>x. key x = Some k) (messages st)) = 1"
  using assms by (intro once_if_distinct) (auto simp: chat_inv_def)

lemma delivered_key_once:
  assumes "chat_inv st" "listening st = Some c" "k \<noteq> []"
  shows "length (filter (\<lambda>x. key x = Some k)
      (messages (chat_run conv st (map (\<lambda>(ch, msg, k'). Feed ch msg k') before
                              @ Feed (session_id c) (Some m) k
                              # map (\<lambda>(ch, msg, k'). Feed ch msg k') after)))) = 1"
proof -
  let ?b = "chat_run conv st (map (\<lambda>(ch, msg, k'). Feed ch msg k') before)"
  let ?f = "feed conv (session_id c) (Some m) k ?b"
  let ?e = "chat_run conv ?f (map (\<lambda>(ch, msg, k'). Feed ch msg k') after)"
  have "listening ?b = Some c"
    by (simp add: listening_feeds assms(2))
  then have "k \<in> renderedMessageKeys ?f"
    using assms(3) by (rule rendered_feed_key)
  then have "k \<in> renderedMessageKeys ?e"
    using rendered_feeds [of ?f conv after] by blast
  moreover have "chat_inv ?e"
    by (intro chat_inv_run chat_inv_feed assms(1))
  ultimately have "length (filter (\<lambda>x. key x = Some k) (messages ?e)) = 1"
    by (intro rendered_once)
  moreover have "chat_run conv st (map (\<lambda>(ch, msg, k'). Feed ch msg k') before
      @ Feed (session_id c) (Some m) k # map (\<lambda>(ch, msg, k'). Feed ch msg k') after) = ?e"
    by (simp add: chat_run_def)
  ultimately show ?thesis
    by simp
qed

section \<open>The message stream of ChatWindow.tsx: proofs\<close>

lemma map_fst_put:
  "map fst (put k v kvs) = (if k \<in> fst ` set kvs then map fst kvs else map fst kvs @ [k])"
  by (induction kvs) force+

lemma distinct_put: "distinct (map fst kvs) \<Longrightarrow> distinct (map fst (put k v kvs))"
  by (simp add: map_fst_put)

lemma fst_put: "k \<in> fst ` set (put k v kvs)"
  by (induction kvs) force+

lemma map_of_put: "map_of (put k v kvs) k = Some v"
  by (induction kvs) auto

lemma map_ids:
  "list_all (\<lambda>km. msg_id (snd km) = fst km) kvs \<Longrightarrow> map msg_id (map snd kvs) = map fst kvs"
  by (induction kvs) auto

subsection \<open>One message for each id\<close>

lemma window_inv_callback_finish:
  assumes "window_inv st"
  shows "window_inv (callback_finish conv run msgData decrypted st)"
proof -
  let ?final = "msgData\<lparr>msg_text := Some decrypted\<rparr>"
  let ?map = "put (msg_id msgData) ?final (messageMaps st run)"
  from assms have d: "distinct (map fst ?map)"
    by (intro distinct_put) (simp add: window_inv_def)
  from assms have a: "list_all (\<lambda>km. msg_id (snd km) = fst km) ?map"
    by (intro list_all_put) (simp_all add: window_inv_def)
  have "distinct (map msg_id (array_sort (by_timestamp conv) (map snd ?map)))"
    using d by (simp only: distinct_map_array_sort map_ids [OF a])
  then show ?thesis
    using assms d a by (simp add: window_inv_def callback_finish_def Let_def)
qed

lemma window_inv_pending: "window_inv (st\<lparr>pending := ps\<rparr>) = window_inv st"
  by (simp add: window_inv_def)

lemma window_inv_callback_start:
  "window_inv st \<Longrightarrow> window_inv (callback_start conv run sharedKey user msgData st)"
  by (auto simp: callback_start_def window_inv_pending window_inv_callback_finish
      split: option.splits)

lemma window_inv_callback_resume: "window_inv st \<Longrightarrow> window_inv (callback_resume crypto conv p st)"
  by (simp add: callback_resume_def window_inv_callback_finish)

lemma window_inv_windowEffect: "window_inv st \<Longrightarrow> window_inv (windowEffect st)"
  by (simp add: windowEffect_def window_inv_def Let_def)

lemma window_inv_step: "window_inv st \<Longrightarrow> window_inv (window_step crypto conv st ev)"
proof (cases ev)
  case (SetContact c)
  assume "window_inv st"
  then have "window_inv (st\<lparr>w_contact := c\<rparr>)"
    by (simp add: window_inv_def)
  then show ?thesis
    by (simp add: SetContact window_inv_windowEffect)
next
  case (SetSharedKey k)
  assume "window_inv st"
  then have "window_inv (st\<lparr>w_sharedKey := Some k\<rparr>)"
    by (simp add: window_inv_def)
  then show ?thesis
    by (simp add: SetSharedKey window_inv_windowEffect)
next
  case (Deliver msg k)
  assume "window_inv st"
  then show ?thesis
    by (simp add: Deliver window_inv_callback_start split: option.splits)
next
  case (Resume n)
  assume "window_inv st"
  then show ?thesis
    by (simp add: Resume window_inv_callback_resume window_inv_pending)
qed

lemma window_inv_run: "window_inv st \<Longrightarrow> window_inv (window_run crypto conv st evs)"
  unfolding window_run_def by (induction evs arbitrary: st) (simp_all add: window_inv_step)

lemma window_inv_mounted: "window_inv (window_mounted user)"
  by (simp add: window_inv_def window_mounted_def)

lemma only_one:
  "distinct (map f xs) \<Longrightarrow> x \<in> set xs \<Longrightarrow> filter (\<lambda>y. f y = f x) xs = [x]"
  by (induction xs) (auto simp: filter_empty_conv image_iff)

lemma callback_finish_shown:
  assumes "window_inv st"
  shows "filter (\<lambda>x. msg_id x = msg_id msgData)
      (w_messages (callback_finish conv run msgData decrypted st))
    = [msgData\<lparr>msg_text := Some decrypted\<rparr>]"
proof -
  let ?st = "callback_finish conv run msgData decrypted st"
  let ?final = "msgData\<lparr>msg_text := Some decrypted\<rparr>"
  let ?map = "put (msg_id msgData) ?final (messageMaps st run)"
  have "map_of ?map (msg_id msgData) = Some ?final"
    by (rule map_of_put)
  then have "(msg_id msgData, ?final) \<in> set ?map"
    by (rule map_of_SomeD)
  then have "?final \<in> snd ` set ?map"
    by force
  then have "?final \<in> set (w_messages ?st)"
    by (simp add: callback_finish_def Let_def set_array_sort)
  moreover have "distinct (map msg_id (w_messages ?st))"
    using window_inv_callback_finish [OF assms] by (simp add: window_inv_def)
  ultimately have "filter (\<lambda>y. msg_id y = msg_id ?final) (w_messages ?st) = [?final]"
    by (intro only_one)
  then show ?thesis
    by simp
qed

lemma callback_finish_once:
  assumes "window_inv st"
  shows "length (filter (\<lambda>x. msg_id x = msg_id msgData)
      (w_messages (callback_finish conv run msgData decrypted st))) = 1"
  by (simp add: callback_finish_shown [OF assms])

subsection \<open>With numbers for time stamps the messages shown stay in ascending order\<close>





lemma window_ordered_mounted: "window_ordered conv (window_mounted user)"
  by (simp add: window_ordered_def window_mounted_def ordered_Nil)


section \<open>Rendering: proofs\<close>

lemma MessageItem_other_sender:
  "sender m \<noteq> user \<Longrightarrow>
   MessageItem crypto getSharedKey (m\<lparr>msg_text := t\<rparr>) user p
     = MessageItem crypto getSharedKey (m\<lparr>msg_text := None\<rparr>) user p"
  by (simp add: MessageItem_def Let_def cong: option.case_cong prod.case_cong if_cong)

lemma MessageItem_other_sender_text:
  "sender m \<noteq> user \<Longrightarrow> isFile m \<noteq> Some True \<Longrightarrow> ct m = Some c \<Longrightarrow> iv m = Some i \<Longrightarrow>
   c \<noteq> [] \<Longrightarrow> i \<noteq> [] \<Longrightarrow>
   decryptedText (MessageItem crypto getSharedKey m user p)
     = (case getSharedKey (sender m) of
          None \<Rightarrow> Some decryption_failed
        | Some sharedKey \<Rightarrow>
            (case decryptMessage_part002 crypto sharedKey c i of
               Inl e \<Rightarrow> Some decryption_failed
             | Inr text \<Rightarrow> Some text))"
  by (simp add: MessageItem_def Let_def split: option.splits sum.splits)

lemma own_text_other_sender: "sender md \<noteq> user \<Longrightarrow> own_text user md = []"
  by (simp add: own_text_def split: option.splits)

lemma window_deliver_resume_other_sender:
  assumes "sender m \<noteq> w_username st"
  shows "window_run crypto conv st [Deliver (Some (m\<lparr>msg_text := t\<rparr>)) k, Resume (length (pending st))]
       = window_run crypto conv st [Deliver (Some (m\<lparr>msg_text := None\<rparr>)) k, Resume (length (pending st))]"
proof -
  have own: "own_text (w_username st) (m\<lparr>msg_text := t', msg_id := k\<rparr>) = []" for t'
    using assms by (intro own_text_other_sender) simp
  show ?thesis
    by (cases "active st"; cases "w_sharedKey st"; cases "ct m"; cases "iv m")
      (simp_all add: window_run_def callback_start_def callback_resume_def callback_finish_def
        own Let_def)
qed

lemma window_deliver_resume_shown:
  assumes "window_inv st" "active st = Some run" "w_sharedKey st = Some K"
    and "k \<notin> fst ` set (messageMaps st run)"
    and "sender md \<noteq> []" "truthy (timestamp md)"
    and "ct md = Some c" "iv md = Some i" "c \<noteq> []" "i \<noteq> []"
  shows "filter (\<lambda>x. msg_id x = k)
      (w_messages (window_run crypto conv st [Deliver (Some md) k, Resume (length (pending st))]))
    = [md\<lparr>msg_id := k,
          msg_text := Some (case decryptMessage crypto K c i of
                              Inl e \<Rightarrow> failed_to_decrypt
                            | Inr text \<Rightarrow> text)\<rparr>]"
proof -
  let ?p = "\<lparr>p_run = run, p_sharedKey = K, p_username = w_username st,
             p_msgData = md\<lparr>msg_id := k\<rparr>, p_ct = c, p_iv = i\<rparr>"
  let ?d = "case decryptMessage crypto K c i of Inl e \<Rightarrow> failed_to_decrypt | Inr text \<Rightarrow> text"
  have start: "window_step crypto conv st (Deliver (Some md) k) = st\<lparr>pending := pending st @ [?p]\<rparr>"
    using assms(2-) by (simp add: callback_start_def)
  have "window_run crypto conv st [Deliver (Some md) k, Resume (length (pending st))]
      = window_step crypto conv (window_step crypto conv st (Deliver (Some md) k))
          (Resume (length (pending st)))"
    by (simp add: window_run_def del: window_step.simps)
  also have "\<dots> = window_step crypto conv (st\<lparr>pending := pending st @ [?p]\<rparr>)
      (Resume (length (pending st)))"
    by (simp only: start)
  also have "\<dots> = callback_finish conv run (md\<lparr>msg_id := k\<rparr>) ?d st"
    by (simp add: callback_resume_def)
  finally have "window_run crypto conv st [Deliver (Some md) k, Resume (length (pending st))]
      = callback_finish conv run (md\<lparr>msg_id := k\<rparr>) ?d st" .
  moreover have "filter (\<lambda>x. msg_id x = msg_id (md\<lparr>msg_id := k\<rparr>))
      (w_messages (callback_finish conv run (md\<lparr>msg_id := k\<rparr>) ?d st))
    = [md\<lparr>msg_id := k\<rparr>\<lparr>msg_text := Some ?d\<rparr>]"
    using assms(1) by (rule callback_finish_shown)
  ultimately show ?thesis
    by simp
qed

lemma window_deliver_plain_shown:
  assumes "window_inv st" "active st = Some run" "w_sharedKey st = Some K"
    and "k \<notin> fst ` set (messageMaps st run)"
    and "sender md \<noteq> []" "truthy (timestamp md)" "sender md \<noteq> w_username st"
    and "\<not> (truthy_str (ct md) \<and> truthy_str (iv md))"
  shows "filter (\<lambda>x. msg_id x = k) (w_messages (window_run crypto conv st [Deliver (Some md) k]))
    = [md\<lparr>msg_id := k, msg_text := Some []\<rparr>]"
proof -
  have own: "own_text (w_username st) (md\<lparr>msg_id := k\<rparr>) = []"
    using assms(7) by (intro own_text_other_sender) simp
  have "window_run crypto conv st [Deliver (Some md) k]
      = callback_finish conv run (md\<lparr>msg_id := k\<rparr>) [] st"
    using assms(2-6,8)
    by (auto simp: window_run_def callback_start_def own truthy_str_def split: option.splits)
  moreover have "filter (\<lambda>x. msg_id x = msg_id (md\<lparr>msg_id := k\<rparr>))
      (w_messages (callback_finish conv run (md\<lparr>msg_id := k\<rparr>) [] st))
    = [md\<lparr>msg_id := k\<rparr>\<lparr>msg_text := Some []\<rparr>]"
    using assms(1) by (rule callback_finish_shown)
  ultimately show ?thesis
    by simp
qed

lemma example_window_eq:
  "example_window
     = (window_mounted (js ''alice''))
         \<lparr>w_contact := Some \<lparr>username = js ''bob'', chatId = js ''alice:bob''\<rparr>,
          w_sharedKey := Some 7, active := Some 0, runs := 1\<rparr>"
  by (simp add: example_window_def window_run_def windowEffect_def window_mounted_def)
    (rule ext, simp)

lemma window_inv_example: "window_inv example_window"
  unfolding example_window_def by (intro window_inv_run window_inv_mounted)

text \<open>
  C8. For a message whose sender is not the viewer, what is rendered does not depend on
  the plaintext the sender stored with it, and is the decryption of its ciphertext.
  \<^verbatim>\<open>MessageItem\<close> of Chat.tsx gives the same view whatever that field holds; for a text
  message with ciphertext and nonce it shows the decryption under the key shared with
  the sender, or the sentinel when the key or the decryption fails. \<^verbatim>\<open>ChatWindow\<close> shows
  the same messages whatever that field holds, after the entry was delivered and its
  decryption came back; the message it then shows under the entry's id has for text the
  decryption of the ciphertext under the shared key, or the sentinel when decryption
  fails; and for an entry that lacks ciphertext or nonce it shows the empty text.
\<close>

theorem echo_only_for_own_messages:
  "(sender m \<noteq> user \<longrightarrow>
      MessageItem crypto getSharedKey (m\<lparr>msg_text := ta\<rparr>) user p
        = MessageItem crypto getSharedKey (m\<lparr>msg_text := tb\<rparr>) user p)
   \<and> (sender m \<noteq> user \<and> isFile m \<noteq> Some True \<and> ct m = Some c \<and> iv m = Some i
        \<and> c \<noteq> [] \<and> i \<noteq> [] \<longrightarrow>
      decryptedText (MessageItem crypto getSharedKey (m\<lparr>msg_text := ta\<rparr>) user p)
        = (case getSharedKey (sender m) of
             None \<Rightarrow> Some decryption_failed
           | Some sharedKey \<Rightarrow>
               (case decryptMessage_part002 crypto sharedKey c i of
                  Inl e \<Rightarrow> Some decryption_failed
                | Inr text \<Rightarrow> Some text)))
   \<and> (sender md \<noteq> w_username st \<longrightarrow>
      window_run crypto conv st [Deliver (Some (md\<lparr>msg_text := ta\<rparr>)) k, Resume (length (pending st))]
        = window_run crypto conv st [Deliver (Some (md\<lparr>msg_text := tb\<rparr>)) k, Resume (length (pending st))])
   \<and> (window_inv st \<and> active st = Some run \<and> w_sharedKey st = Some K
        \<and> k \<notin> fst ` set (messageMaps st run)
        \<and> sender md \<noteq> [] \<and> truthy (timestamp md) \<and> sender md \<noteq> w_username st
        \<and> ct md = Some c \<and> iv md = Some i \<and> c \<noteq> [] \<and> i \<noteq> [] \<longrightarrow>
      filter (\<lambda>x. msg_id x = k)
        (w_messages (window_run crypto conv st
           [Deliver (Some (md\<lparr>msg_text := ta\<rparr>)) k, Resume (length (pending st))]))
        = [md\<lparr>msg_id := k,
              msg_text := Some (case decryptMessage crypto K c i of
                                  Inl e \<Rightarrow> failed_to_decrypt
                                | Inr text \<Rightarrow> text)\<rparr>])
   \<and> (window_inv st \<and> active st = Some run \<and> w_sharedKey st = Some K
        \<and> k \<notin> fst ` set (messageMaps st run)
        \<and> sender md \<noteq> [] \<and> truthy (timestamp md) \<and> sender md \<noteq> w_username st
        \<and> \<not> (truthy_str (ct md) \<and> truthy_str (iv md)) \<longrightarrow>
      filter (\<lambda>x. msg_id x = k)
        (w_messages (window_run crypto conv st [Deliver (Some (md\<lparr>msg_text := ta\<rparr>)) k]))
        = [md\<lparr>msg_id := k, msg_text := Some []\<rparr>])"
proof -
  have a: "sender m \<noteq> user \<longrightarrow>
      MessageItem crypto getSharedKey (m\<lparr>msg_text := ta\<rparr>) user p
        = MessageItem crypto getSharedKey (m\<lparr>msg_text := tb\<rparr>) user p"
    by (simp add: MessageItem_other_sender [where m = m and user = user and t = ta]
        MessageItem_other_sender [where m = m and user = user and t = tb])
  have b: "sender m \<noteq> user \<and> isFile m \<noteq> Some True \<and> ct m = Some c \<and> iv m = Some i
        \<and> c \<noteq> [] \<and> i \<noteq> [] \<longrightarrow>
      decryptedText (MessageItem crypto getSharedKey (m\<lparr>msg_text := ta\<rparr>) user p)
        = (case getSharedKey (sender m) of
             None \<Rightarrow> Some decryption_failed
           | Some sharedKey \<Rightarrow>
               (case decryptMessage_part002 crypto sharedKey c i of
                  Inl e \<Rightarrow> Some decryption_failed
                | Inr text \<Rightarrow> Some text))"
    using MessageItem_other_sender_text [where m = "m\<lparr>msg_text := ta\<rparr>" and user = user
        and c = c and i = i and crypto = crypto and getSharedKey = getSharedKey and p = p]
    by simp
  have c: "sender md \<noteq> w_username st \<longrightarrow>
      window_run crypto conv st [Deliver (Some (md\<lparr>msg_text := ta\<rparr>)) k, Resume (length (pending st))]
        = window_run crypto conv st [Deliver (Some (md\<lparr>msg_text := tb\<rparr>)) k, Resume (length (pending st))]"
    by (simp add: window_deliver_resume_other_sender [where m = md and st = st and t = ta]
        window_deliver_resume_other_sender [where m = md and st = st and t = tb])
  have d: "window_inv st \<and> active st = Some run \<and> w_sharedKey st = Some K
        \<and> k \<notin> fst ` set (messageMaps st run)
        \<and> sender md \<noteq> [] \<and> truthy (timestamp md) \<and> sender md \<noteq> w_username st
        \<and> ct md = Some c \<and> iv md = Some i \<and> c \<noteq> [] \<and> i \<noteq> [] \<longrightarrow>
      filter (\<lambda>x. msg_id x = k)
        (w_messages (window_run crypto conv st
           [Deliver (Some (md\<lparr>msg_text := ta\<rparr>)) k, Resume (length (pending st))]))
        = [md\<lparr>msg_id := k,
              msg_text := Some (case decryptMessage crypto K c i of
                                  Inl e \<Rightarrow> failed_to_decrypt
                                | Inr text \<Rightarrow> text)\<rparr>]"
    using window_deliver_resume_shown [where st = st and run = run and K = K and k = k
        and md = "md\<lparr>msg_text := ta\<rparr>" and c = c and i = i and crypto = crypto and conv = conv]
    by simp
  have e: "window_inv st \<and> active st = Some run \<and> w_sharedKey st = Some K
        \<and> k \<notin> fst ` set (messageMaps st run)
        \<and> sender md \<noteq> [] \<and> truthy (timestamp md) \<and> sender md \<noteq> w_username st
        \<and> \<not> (truthy_str (ct md) \<and> truthy_str (iv md)) \<longrightarrow>
      filter (\<lambda>x. msg_id x = k)
        (w_messages (window_run crypto conv st [Deliver (Some (md\<lparr>msg_text := ta\<rparr>)) k]))
        = [md\<lparr>msg_id := k, msg_text := Some []\<rparr>]"
    using window_deliver_plain_shown [where st = st and run = run and K = K and k = k
        and md = "md\<lparr>msg_text := ta\<rparr>" and crypto = crypto and conv = conv]
    by simp
  from a b c d e show ?thesis by (intro conjI)
qed

text \<open>
  A message of "bob" seen by "alice", once with a forged plaintext and once without:
  both are shown as the decryption of its ciphertext.
\<close>

theorem echo_only_for_own_messages_witness:
  "MessageItem toy_subtle (\<lambda>u. Some 7)
     ((example_chat_message (js ''aGkK'') (js ''AQIDBAUGBwgJCgsM''))\<lparr>msg_text := Some (js ''forged'')\<rparr>)
     (js ''alice'') (js ''bob'')
   = MessageItem toy_subtle (\<lambda>u. Some 7)
     ((example_chat_message (js ''aGkK'') (js ''AQIDBAUGBwgJCgsM''))\<lparr>msg_text := None\<rparr>)
     (js ''alice'') (js ''bob'')
   \<and> decryptedText (MessageItem toy_subtle (\<lambda>u. Some 7)
     ((example_chat_message (js ''aGkK'') (js ''AQIDBAUGBwgJCgsM''))\<lparr>msg_text := Some (js ''forged'')\<rparr>)
     (js ''alice'') (js ''bob'')) = Some (js ''hi'')
   \<and> window_run toy_subtle example_conv example_window
       [Deliver (Some ((example_message (js ''aGkK'') (js ''AQIDBAUGBwgJCgsM''))\<lparr>msg_text := Some (js ''forged'')\<rparr>))
          (js ''k1''), Resume 0]
     = window_run toy_subtle example_conv example_window
       [Deliver (Some ((example_message (js ''aGkK'') (js ''AQIDBAUGBwgJCgsM''))\<lparr>msg_text := None\<rparr>))
          (js ''k1''), Resume 0]
   \<and> filter (\<lambda>x. msg_id x = js ''k1'')
       (w_messages (window_run toy_subtle example_conv example_window
          [Deliver (Some ((example_message (js ''aGkK'') (js ''AQIDBAUGBwgJCgsM''))\<lparr>msg_text := Some (js ''forged'')\<rparr>))
             (js ''k1''), Resume 0]))
     = [(example_message (js ''aGkK'') (js ''AQIDBAUGBwgJCgsM''))\<lparr>msg_text := Some (js ''hi'')\<rparr>]
   \<and> filter (\<lambda>x. msg_id x = js ''k2'')
       (w_messages (window_run toy_subtle example_conv example_window
          [Deliver (Some ((example_plain (JNum 100))\<lparr>msg_text := Some (js ''forged'')\<rparr>)) (js ''k2'')]))
     = [(example_plain (JNum 100))\<lparr>msg_id := js ''k2'', msg_text := Some []\<rparr>]"
proof -
  let ?m = "example_chat_message (js ''aGkK'') (js ''AQIDBAUGBwgJCgsM'')"
  let ?md = "example_message (js ''aGkK'') (js ''AQIDBAUGBwgJCgsM'')"
  note t = echo_only_for_own_messages [where m = ?m and user = "js ''alice''"
      and crypto = toy_subtle and getSharedKey = "\<lambda>u. Some 7" and ta = "Some (js ''forged'')"
      and tb = None and p = "js ''bob''" and c = "js ''aGkK''" and i = "js ''AQIDBAUGBwgJCgsM''"
      and st = example_window and conv = example_conv and run = 0 and K = 7]
  note t1 = t [where md = ?md and k = "js ''k1''"]
  note t2 = t [where md = "example_plain (JNum 100)" and k = "js ''k2''"]
  have other: "sender ?m \<noteq> js ''alice''"
    by (simp add: example_chat_message_def js_def)
  have shape: "sender ?m \<noteq> js ''alice'' \<and> isFile ?m \<noteq> Some True \<and> ct ?m = Some (js ''aGkK'')
      \<and> iv ?m = Some (js ''AQIDBAUGBwgJCgsM'') \<and> js ''aGkK'' \<noteq> [] \<and> js ''AQIDBAUGBwgJCgsM'' \<noteq> []"
    by (simp add: example_chat_message_def js_def)
  have other': "sender ?md \<noteq> w_username example_window"
    by (simp add: example_message_def example_window_eq window_mounted_def js_def)
  have none: "length (pending example_window) = 0"
    by (simp add: example_window_eq window_mounted_def)
  have shape': "window_inv example_window \<and> active example_window = Some 0
      \<and> w_sharedKey example_window = Some 7
      \<and> js ''k1'' \<notin> fst ` set (messageMaps example_window 0)
      \<and> sender ?md \<noteq> [] \<and> truthy (timestamp ?md) \<and> sender ?md \<noteq> w_username example_window
      \<and> ct ?md = Some (js ''aGkK'') \<and> iv ?md = Some (js ''AQIDBAUGBwgJCgsM'')
      \<and> js ''aGkK'' \<noteq> [] \<and> js ''AQIDBAUGBwgJCgsM'' \<noteq> []"
    using window_inv_example
    by (simp add: example_message_def example_window_eq window_mounted_def js_def)
  have plain: "window_inv example_window \<and> active example_window = Some 0
      \<and> w_sharedKey example_window = Some 7
      \<and> js ''k2'' \<notin> fst ` set (messageMaps example_window 0)
      \<and> sender (example_plain (JNum 100)) \<noteq> [] \<and> truthy (timestamp (example_plain (JNum 100)))
      \<and> sender (example_plain (JNum 100)) \<noteq> w_username example_window
      \<and> \<not> (truthy_str (ct (example_plain (JNum 100))) \<and> truthy_str (iv (example_plain (JNum 100))))"
    using window_inv_example
    by (simp add: example_plain_def example_window_eq window_mounted_def js_def truthy_str_def)
  have dec: "decryptMessage toy_subtle 7 (js ''aGkK'') (js ''AQIDBAUGBwgJCgsM'') = Inr (js ''hi'')"
    by (simp add: decryptMessage_def toy_decrypt_hi)
  have a: "MessageItem toy_subtle (\<lambda>u. Some 7) (?m\<lparr>msg_text := Some (js ''forged'')\<rparr>)
        (js ''alice'') (js ''bob'')
      = MessageItem toy_subtle (\<lambda>u. Some 7) (?m\<lparr>msg_text := None\<rparr>) (js ''alice'') (js ''bob'')"
    by (rule t1 [THEN conjunct1, THEN mp, OF other])
  have b: "decryptedText (MessageItem toy_subtle (\<lambda>u. Some 7)
        (?m\<lparr>msg_text := Some (js ''forged'')\<rparr>) (js ''alice'') (js ''bob'')) = Some (js ''hi'')"
    using t1 [THEN conjunct2, THEN conjunct1, THEN mp, OF shape]
    by (simp add: toy_decrypt_hi)
  have c: "window_run toy_subtle example_conv example_window
       [Deliver (Some (?md\<lparr>msg_text := Some (js ''forged'')\<rparr>)) (js ''k1''), Resume 0]
     = window_run toy_subtle example_conv example_window
       [Deliver (Some (?md\<lparr>msg_text := None\<rparr>)) (js ''k1''), Resume 0]"
    using t1 [THEN conjunct2, THEN conjunct2, THEN conjunct1, THEN mp, OF other']
    by (simp only: none)
  have d: "filter (\<lambda>x. msg_id x = js ''k1'')
       (w_messages (window_run toy_subtle example_conv example_window
          [Deliver (Some (?md\<lparr>msg_text := Some (js ''forged'')\<rparr>)) (js ''k1''), Resume 0]))
     = [?md\<lparr>msg_text := Some (js ''hi'')\<rparr>]"
    using t1 [THEN conjunct2, THEN conjunct2, THEN conjunct2, THEN conjunct1, THEN mp, OF shape']
    by (simp add: none dec example_message_def)
  have e: "filter (\<lambda>x. msg_id x = js ''k2'')
       (w_messages (window_run toy_subtle example_conv example_window
          [Deliver (Some ((example_plain (JNum 100))\<lparr>msg_text := Some (js ''forged'')\<rparr>)) (js ''k2'')]))
     = [(example_plain (JNum 100))\<lparr>msg_id := js ''k2'', msg_text := Some []\<rparr>]"
    by (rule t2 [THEN conjunct2, THEN conjunct2, THEN conjunct2, THEN conjunct2, THEN mp, OF plain])
  from a b c d e show ?thesis
    by (intro conjI)
qed
section \<open>The reconciler: ordering and one message for each key\<close>

lemma example_chat_listening:
  "listening (example_chat storage) = Some \<lparr>partner = js ''bob'', session_id = js ''alice:bob''\<rparr>"
  by (simp add: example_chat_def selectChat_def afterSetCurrentChat_def messagesEffect_def
      messagesCleanup_def chat_mounted_def example_bob_def Let_def listening_persistEffect
      split: option.splits)

lemma cache_ok_example: "cache_ok (Some example_cache)"
  by (simp add: cache_ok_def cache_all_def example_cache_def bounded_storage_def)


lemma chat_inv_example: "cache_ok storage \<Longrightarrow> chat_inv (example_chat storage)"
  unfolding example_chat_def by (intro chat_inv_selectChat chat_inv_mounted)




lemma example_keys: "js ''k1'' \<noteq> []" "js ''k2'' \<noteq> []" "js ''k3'' \<noteq> []"
  "js ''k4'' \<noteq> []" "js ''k5'' \<noteq> []"
  "js ''k1'' \<noteq> js ''k2''" "js ''k1'' \<noteq> js ''k3''" "js ''k2'' \<noteq> js ''k3''"
  "js ''k2'' \<noteq> js ''k1''" "js ''k3'' \<noteq> js ''k1''" "js ''k3'' \<noteq> js ''k2''"
  "js ''k0'' \<noteq> js ''k1''" "js ''k0'' \<noteq> js ''k2''" "js ''k0'' \<noteq> js ''k3''"
  "js ''k1'' \<noteq> js ''k0''" "js ''k2'' \<noteq> js ''k0''" "js ''k3'' \<noteq> js ''k0''"
  "js ''k4'' \<noteq> js ''k1''" "js ''k4'' \<noteq> js ''k2''" "js ''k4'' \<noteq> js ''k3''"
  "js ''k5'' \<noteq> js ''k1''" "js ''k5'' \<noteq> js ''k2''" "js ''k5'' \<noteq> js ''k3''"
  "js ''k5'' \<noteq> js ''k4''"
  "js ''k1'' \<noteq> js ''k4''" "js ''k2'' \<noteq> js ''k4''" "js ''k3'' \<noteq> js ''k4''"
  "js ''k1'' \<noteq> js ''k5''" "js ''k2'' \<noteq> js ''k5''" "js ''k3'' \<noteq> js ''k5''"
  "js ''k4'' \<noteq> js ''k5''"
  by (simp_all add: js_def)

lemmas sort_simps = array_sort_def SortCompare_def by_timestamp_def ToNumber_def






lemma example_repeated:
  "map (\<lambda>x. (timestamp x, key x)) (messages (chat_run conv (example_chat (Some example_cache))
      [Feed (js ''alice:bob'') (Some (example_entry (JNum 70))) (js ''k0''),
       Feed (js ''alice:bob'') (Some (example_entry (JNum 300))) (js ''k1''),
       Feed (js ''alice:bob'') (Some (example_entry (JNum 50))) (js ''k1'')]))
   = [(JNum 200, Some (js ''k0'')), (JNum 300, Some (js ''k1''))]"
  by (simp add: chat_run_def example_chat_def selectChat_def afterSetCurrentChat_def messagesEffect_def
      messagesCleanup_def chat_mounted_def example_bob_def Let_def persistEffect_def
      loadMessagesFromCache_def example_cache_def bounded_storage_def getItem_def cached_keys_def
      saveMessagesToCache_def setItem_def example_keys feed_def handleMessage_def example_entry_def
      sort_simps)

lemma example_window_repeated:
  "map msg_id (w_messages (window_run crypto conv example_window
      [Deliver (Some (example_message c i)) (js ''k1''),
       Deliver (Some ((example_message c' i')\<lparr>timestamp := JNum 50\<rparr>)) (js ''k1''),
       Resume 0, Resume 0]))
   = [js ''k1'']"
  by (simp add: window_run_def example_window_eq window_mounted_def callback_start_def
      callback_resume_def callback_finish_def example_message_def example_keys Let_def js_def
      sort_simps)




text \<open>
  C4. One message for each key. In \<^verbatim>\<open>Chat.tsx\<close>: from a state in which no list of the
  timeline and of the cache has two messages of the same key, no two messages of the
  timeline have the same key after any events, and after the cached messages of a
  channel have been shown; and once the feed of the channel listened to has delivered a
  value under a key, whatever other entries the feed delivers before and after, with any
  keys and values, the timeline has exactly one message of that key. In
  \<^verbatim>\<open>ChatWindow.tsx\<close>: no two messages shown have the same id after any events, and when a
  callback has finished there is exactly one message of its id.
\<close>

theorem one_message_per_key:
  assumes "chat_inv st" and "window_inv w"
  shows "distinct (map key (messages (chat_run conv st evs)))
    \<and> distinct (map key (messages (messagesEffect st)))
    \<and> (listening st = Some c \<and> k \<noteq> [] \<longrightarrow>
         length (filter (\<lambda>x. key x = Some k)
           (messages (chat_run conv st (map (\<lambda>(ch, msg, k'). Feed ch msg k') before
                                   @ Feed (session_id c) (Some m) k
                                   # map (\<lambda>(ch, msg, k'). Feed ch msg k') after)))) = 1)
    \<and> distinct (map msg_id (w_messages (window_run crypto conv w wevs)))
    \<and> length (filter (\<lambda>x. msg_id x = msg_id msgData)
         (w_messages (callback_finish conv run msgData decrypted w))) = 1"
proof (intro conjI impI)
  from assms(1) have "chat_inv (chat_run conv st evs)"
    by (rule chat_inv_run)
  then show "distinct (map key (messages (chat_run conv st evs)))"
    by (simp add: chat_inv_def)
next
  from assms(1) have "chat_inv (messagesEffect st)"
    by (rule chat_inv_messagesEffect)
  then show "distinct (map key (messages (messagesEffect st)))"
    by (simp add: chat_inv_def)
next
  assume "listening st = Some c \<and> k \<noteq> []"
  then show "length (filter (\<lambda>x. key x = Some k)
      (messages (chat_run conv st (map (\<lambda>(ch, msg, k'). Feed ch msg k') before
                              @ Feed (session_id c) (Some m) k
                              # map (\<lambda>(ch, msg, k'). Feed ch msg k') after)))) = 1"
    using delivered_key_once [OF assms(1)] by blast
next
  from assms(2) have "window_inv (window_run crypto conv w wevs)"
    by (rule window_inv_run)
  then show "distinct (map msg_id (w_messages (window_run crypto conv w wevs)))"
    by (simp add: window_inv_def)
next
  show "length (filter (\<lambda>x. msg_id x = msg_id msgData)
      (w_messages (callback_finish conv run msgData decrypted w))) = 1"
    using assms(2) by (rule callback_finish_once)
qed

theorem one_message_per_key_witness:
  "chat_inv (example_chat (Some example_cache))
   \<and> window_inv example_window
   \<and> listening (example_chat (Some example_cache))
       = Some \<lparr>partner = js ''bob'', session_id = js ''alice:bob''\<rparr>
   \<and> js ''k1'' \<noteq> []
   \<and> distinct (map key (messages (chat_run example_conv (example_chat (Some example_cache))
        [Feed (js ''alice:bob'') (Some (example_entry (JNum 70))) (js ''k0''),
         Feed (js ''alice:bob'') (Some (example_entry (JNum 300))) (js ''k1''),
         Feed (js ''alice:bob'') (Some (example_entry (JNum 50))) (js ''k1'')])))
   \<and> length (filter (\<lambda>x. key x = Some (js ''k1''))
        (messages (chat_run example_conv (example_chat (Some example_cache))
          [Feed (js ''alice:bob'') (Some (example_entry (JNum 70))) (js ''k0''),
           Feed (js ''alice:bob'') (Some (example_entry (JNum 300))) (js ''k1''),
           Feed (js ''alice:bob'') (Some (example_entry (JNum 50))) (js ''k1'')]))) = 1
   \<and> map (\<lambda>x. (timestamp x, key x))
        (messages (chat_run example_conv (example_chat (Some example_cache))
          [Feed (js ''alice:bob'') (Some (example_entry (JNum 70))) (js ''k0''),
           Feed (js ''alice:bob'') (Some (example_entry (JNum 300))) (js ''k1''),
           Feed (js ''alice:bob'') (Some (example_entry (JNum 50))) (js ''k1'')]))
       = [(JNum 200, Some (js ''k0'')), (JNum 300, Some (js ''k1''))]
   \<and> distinct (map msg_id (w_messages (window_run toy_subtle example_conv example_window
        [Deliver (Some (example_message (js ''aGkK'') (js ''AQIDBAUGBwgJCgsM''))) (js ''k1''),
         Deliver (Some ((example_message (js ''Cw=='') (js ''AQIDBAUGBwgJCgsM''))
                         \<lparr>timestamp := JNum 50\<rparr>)) (js ''k1''),
         Resume 0, Resume 0])))
   \<and> map msg_id (w_messages (window_run toy_subtle example_conv example_window
        [Deliver (Some (example_message (js ''aGkK'') (js ''AQIDBAUGBwgJCgsM''))) (js ''k1''),
         Deliver (Some ((example_message (js ''Cw=='') (js ''AQIDBAUGBwgJCgsM''))
                         \<lparr>timestamp := JNum 50\<rparr>)) (js ''k1''),
         Resume 0, Resume 0]))
       = [js ''k1'']"
proof -
  let ?st = "example_chat (Some example_cache)"
  let ?c = "\<lparr>partner = js ''bob'', session_id = js ''alice:bob''\<rparr>"
  let ?evs = "[Feed (js ''alice:bob'') (Some (example_entry (JNum 70))) (js ''k0''),
         Feed (js ''alice:bob'') (Some (example_entry (JNum 300))) (js ''k1''),
         Feed (js ''alice:bob'') (Some (example_entry (JNum 50))) (js ''k1'')]"
  let ?wevs = "[Deliver (Some (example_message (js ''aGkK'') (js ''AQIDBAUGBwgJCgsM''))) (js ''k1''),
         Deliver (Some ((example_message (js ''Cw=='') (js ''AQIDBAUGBwgJCgsM''))
                         \<lparr>timestamp := JNum 50\<rparr>)) (js ''k1''),
         Resume 0, Resume 0]"
  have inv: "chat_inv ?st"
    by (rule chat_inv_example [OF cache_ok_example])
  have l: "listening ?st = Some ?c"
    by (rule example_chat_listening)
  have k: "js ''k1'' \<noteq> []"
    by (rule example_keys)
  have evs: "map (\<lambda>(ch, msg, k'). Feed ch msg k') [(js ''alice:bob'', Some (example_entry (JNum 70)), js ''k0'')]
      @ Feed (session_id ?c) (Some (example_entry (JNum 300))) (js ''k1'')
      # map (\<lambda>(ch, msg, k'). Feed ch msg k') [(js ''alice:bob'', Some (example_entry (JNum 50)), js ''k1'')]
      = ?evs"
    by simp
  note t = one_message_per_key [OF inv window_inv_example,
      where evs = ?evs and c = ?c and k = "js ''k1''" and m = "example_entry (JNum 300)"
        and before = "[(js ''alice:bob'', Some (example_entry (JNum 70)), js ''k0'')]"
        and after = "[(js ''alice:bob'', Some (example_entry (JNum 50)), js ''k1'')]"
        and crypto = toy_subtle and wevs = ?wevs and conv = example_conv]
  have a: "distinct (map key (messages (chat_run example_conv ?st ?evs)))"
    by (rule t [THEN conjunct1])
  have b: "length (filter (\<lambda>x. key x = Some (js ''k1''))
      (messages (chat_run example_conv ?st ?evs))) = 1"
    using t [THEN conjunct2, THEN conjunct2, THEN conjunct1, THEN mp, OF conjI, OF l k]
    by (simp only: evs)
  have c: "distinct (map msg_id (w_messages (window_run toy_subtle example_conv example_window ?wevs)))"
    by (rule t [THEN conjunct2, THEN conjunct2, THEN conjunct2, THEN conjunct1])
  have d: "map msg_id (w_messages (window_run toy_subtle example_conv example_window ?wevs))
      = [js ''k1'']"
    by (rule example_window_repeated)
  show ?thesis
    by (intro conjI inv window_inv_example l k a b c d example_repeated)
qed

section \<open>Tampered messages: proofs\<close>

lemma decryptMessage_failure:
  "decryptMessage crypto K ct_text iv_text = Inl e \<Longrightarrow> e = FailedToDecrypt"
  by (auto simp: decryptMessage_def split: sum.splits)

lemma decryptMessage_success:
  "decryptMessage crypto K ct_text iv_text = Inr text
   \<longleftrightarrow> (\<exists>nonce c plain. b64ToArrayBuffer iv_text = Inr nonce \<and> b64ToArrayBuffer ct_text = Inr c
         \<and> decrypt crypto K nonce c = Some plain \<and> text = arrayBufferToText plain)"
  by (auto simp: decryptMessage_def decryptMessage_part002_def split: sum.splits option.splits)

lemma decryptMessage_rejected:
  "decrypt crypto K nonce c = None \<Longrightarrow>
   decryptMessage crypto K (b64encode (map unat c)) (b64encode (map unat nonce)) = Inl FailedToDecrypt
   \<and> decryptMessage_part002 crypto K (b64encode (map unat c)) (b64encode (map unat nonce))
       = Inl OperationError"
  by (simp add: decryptMessage_def decryptMessage_part002_encoded)

lemma callback_resume_failed:
  "decryptMessage crypto (p_sharedKey p) (p_ct p) (p_iv p) = Inl e \<Longrightarrow>
   callback_resume crypto conv p st = callback_finish conv (p_run p) (p_msgData p) failed_to_decrypt st"
  by (simp add: callback_resume_def)

lemma callback_finish_text:
  "map_of (messageMaps (callback_finish conv run md d st) run) (msg_id md) = Some (md\<lparr>msg_text := Some d\<rparr>)"
proof -
  have "map_of (put k v kvs) k = Some v" for k :: jsstring and v :: message and kvs
    by (induction kvs) auto
  then show ?thesis
    by (simp add: callback_finish_def Let_def)
qed

lemma MessageItem_failed:
  assumes "isFile m \<noteq> Some True" "sender m \<noteq> user" "ct m = Some c" "iv m = Some i"
    "c \<noteq> []" "i \<noteq> []" "getSharedKey (sender m) = Some K"
    "decryptMessage_part002 crypto K c i = Inl e"
  shows "decryptedText (MessageItem crypto getSharedKey m user p) = Some decryption_failed"
  using assms by (simp add: MessageItem_def Let_def)

text \<open>
  C2, as the code has it. The pair \<^verbatim>\<open>encryptMessage\<close> returns is the base64 text of
  the provider's ciphertext and of the nonce. When a bit of the ciphertext bytes, or of
  the nonce bytes, is flipped and the provider rejects the result, \<^verbatim>\<open>decryptMessage\<close>
  on the re-encoded pair fails (with \<^verbatim>\<open>Error('Failed to decrypt message')\<close>, or with the
  provider's \<^verbatim>\<open>OperationError\<close> in the version Chat.tsx imports). On any two strings
  it returns a text only when both are valid base64 and the provider accepted the
  decoded bytes. A failure is rendered as a sentinel: the callback of
  \<^verbatim>\<open>ChatWindow\<close> stores the message with the text "[Failed to decrypt]", and
  \<^verbatim>\<open>MessageItem\<close> shows its "Decryption Failed" text.
\<close>

theorem tampered_message_rejected:
  "encryptMessage crypto K nonce P
     = Inr (b64encode (map unat (encrypt crypto K nonce (textToArrayBuffer P))),
            b64encode (map unat nonce))
   \<and> (decrypt crypto K nonce (flip_bit_at n (encrypt crypto K nonce (textToArrayBuffer P))) = None \<longrightarrow>
        decryptMessage crypto K
          (b64encode (map unat (flip_bit_at n (encrypt crypto K nonce (textToArrayBuffer P)))))
          (b64encode (map unat nonce)) = Inl FailedToDecrypt
        \<and> decryptMessage_part002 crypto K
          (b64encode (map unat (flip_bit_at n (encrypt crypto K nonce (textToArrayBuffer P)))))
          (b64encode (map unat nonce)) = Inl OperationError)
   \<and> (decrypt crypto K (flip_bit_at n nonce) (encrypt crypto K nonce (textToArrayBuffer P)) = None \<longrightarrow>
        decryptMessage crypto K
          (b64encode (map unat (encrypt crypto K nonce (textToArrayBuffer P))))
          (b64encode (map unat (flip_bit_at n nonce))) = Inl FailedToDecrypt
        \<and> decryptMessage_part002 crypto K
          (b64encode (map unat (encrypt crypto K nonce (textToArrayBuffer P))))
          (b64encode (map unat (flip_bit_at n nonce))) = Inl OperationError)
   \<and> (decryptMessage crypto K ct_text iv_text = Inr text \<longrightarrow>
        (\<exists>nonce' c plain. b64ToArrayBuffer iv_text = Inr nonce' \<and> b64ToArrayBuffer ct_text = Inr c
           \<and> decrypt crypto K nonce' c = Some plain \<and> text = arrayBufferToText plain))
   \<and> (decryptMessage crypto K ct_text iv_text = Inl e \<longrightarrow> e = FailedToDecrypt)
   \<and> (decryptMessage crypto (p_sharedKey p) (p_ct p) (p_iv p) = Inl e \<longrightarrow>
        callback_resume crypto conv p st = callback_finish conv (p_run p) (p_msgData p) failed_to_decrypt st
        \<and> map_of (messageMaps (callback_resume crypto conv p st) (p_run p)) (msg_id (p_msgData p))
            = Some ((p_msgData p)\<lparr>msg_text := Some failed_to_decrypt\<rparr>))
   \<and> (isFile m \<noteq> Some True \<and> sender m \<noteq> user \<and> ct m = Some ct_text \<and> iv m = Some iv_text
        \<and> ct_text \<noteq> [] \<and> iv_text \<noteq> [] \<and> getSharedKey (sender m) = Some K
        \<and> decryptMessage_part002 crypto K ct_text iv_text = Inl e \<longrightarrow>
        decryptedText (MessageItem crypto getSharedKey m user partner') = Some decryption_failed)"
proof -
  have resume: "decryptMessage crypto (p_sharedKey p) (p_ct p) (p_iv p) = Inl e \<longrightarrow>
        callback_resume crypto conv p st = callback_finish conv (p_run p) (p_msgData p) failed_to_decrypt st
        \<and> map_of (messageMaps (callback_resume crypto conv p st) (p_run p)) (msg_id (p_msgData p))
            = Some ((p_msgData p)\<lparr>msg_text := Some failed_to_decrypt\<rparr>)"
    by (simp add: callback_resume_failed callback_finish_text)
  have item: "isFile m \<noteq> Some True \<and> sender m \<noteq> user \<and> ct m = Some ct_text \<and> iv m = Some iv_text
        \<and> ct_text \<noteq> [] \<and> iv_text \<noteq> [] \<and> getSharedKey (sender m) = Some K
        \<and> decryptMessage_part002 crypto K ct_text iv_text = Inl e \<longrightarrow>
        decryptedText (MessageItem crypto getSharedKey m user partner') = Some decryption_failed"
    using MessageItem_failed [where m = m and user = user and c = ct_text and i = iv_text
        and getSharedKey = getSharedKey and K = K and crypto = crypto and e = e and p = partner']
    by blast
  have success: "decryptMessage crypto K ct_text iv_text = Inr text \<longrightarrow>
        (\<exists>nonce' c plain. b64ToArrayBuffer iv_text = Inr nonce' \<and> b64ToArrayBuffer ct_text = Inr c
           \<and> decrypt crypto K nonce' c = Some plain \<and> text = arrayBufferToText plain)"
    by (simp only: decryptMessage_success) simp
  have failure: "decryptMessage crypto K ct_text iv_text = Inl e \<longrightarrow> e = FailedToDecrypt"
    using decryptMessage_failure [of crypto K ct_text iv_text e] by blast
  have ct_flip: "decrypt crypto K nonce (flip_bit_at n (encrypt crypto K nonce (textToArrayBuffer P))) = None \<longrightarrow>
        decryptMessage crypto K
          (b64encode (map unat (flip_bit_at n (encrypt crypto K nonce (textToArrayBuffer P)))))
          (b64encode (map unat nonce)) = Inl FailedToDecrypt
        \<and> decryptMessage_part002 crypto K
          (b64encode (map unat (flip_bit_at n (encrypt crypto K nonce (textToArrayBuffer P)))))
          (b64encode (map unat nonce)) = Inl OperationError"
    using decryptMessage_rejected
      [of crypto K nonce "flip_bit_at n (encrypt crypto K nonce (textToArrayBuffer P))"]
    by blast
  have iv_flip: "decrypt crypto K (flip_bit_at n nonce) (encrypt crypto K nonce (textToArrayBuffer P)) = None \<longrightarrow>
        decryptMessage crypto K
          (b64encode (map unat (encrypt crypto K nonce (textToArrayBuffer P))))
          (b64encode (map unat (flip_bit_at n nonce))) = Inl FailedToDecrypt
        \<and> decryptMessage_part002 crypto K
          (b64encode (map unat (encrypt crypto K nonce (textToArrayBuffer P))))
          (b64encode (map unat (flip_bit_at n nonce))) = Inl OperationError"
    using decryptMessage_rejected
      [of crypto K "flip_bit_at n nonce" "encrypt crypto K nonce (textToArrayBuffer P)"]
    by blast
  from encryptMessage_eq [of crypto K nonce P] ct_flip iv_flip success failure resume item
  show ?thesis
    by (intro conjI)
qed

text \<open>
  The stand-in provider on "hi": bit 9 of the ciphertext flipped, then bit 95 of the
  nonce; both rejected, and rendered as the sentinels.
\<close>

lemma toy_flipped_ciphertext:
  "b64encode (map unat (flip_bit_at 9 (encrypt toy_subtle 7 example_nonce (textToArrayBuffer (js ''hi'')))))
     = js ''aGsK''"
  by (simp add: example_nonce_def toy_subtle_def xor_tag_def textToArrayBuffer_def js_def
      isLeadSurrogate_def isTrailSurrogate_def utf8_encode_cp_def b64char_def)

lemma toy_flipped_nonce:
  "b64encode (map unat (flip_bit_at 95 example_nonce)) = js ''AQIDBAUGBwgJCguM''"
  by (simp add: example_nonce_def b64char_def js_def)

lemma toy_rejects_flipped_ciphertext:
  "decrypt toy_subtle 7 example_nonce
     (flip_bit_at 9 (encrypt toy_subtle 7 example_nonce (textToArrayBuffer (js ''hi'')))) = None"
  by (simp add: example_nonce_def toy_subtle_def xor_tag_def textToArrayBuffer_def js_def
      isLeadSurrogate_def isTrailSurrogate_def utf8_encode_cp_def)

lemma toy_rejects_flipped_nonce:
  "decrypt toy_subtle 7 (flip_bit_at 95 example_nonce)
     (encrypt toy_subtle 7 example_nonce (textToArrayBuffer (js ''hi''))) = None"
  by (simp add: example_nonce_def toy_subtle_def xor_tag_def textToArrayBuffer_def js_def
      isLeadSurrogate_def isTrailSurrogate_def utf8_encode_cp_def)

theorem tampered_message_rejected_witness:
  "encryptMessage toy_subtle 7 example_nonce (js ''hi'') = Inr (js ''aGkK'', js ''AQIDBAUGBwgJCgsM'')
   \<and> decryptMessage toy_subtle 7 (js ''aGsK'') (js ''AQIDBAUGBwgJCgsM'') = Inl FailedToDecrypt
   \<and> decryptMessage_part002 toy_subtle 7 (js ''aGsK'') (js ''AQIDBAUGBwgJCgsM'') = Inl OperationError
   \<and> decryptMessage toy_subtle 7 (js ''aGkK'') (js ''AQIDBAUGBwgJCguM'') = Inl FailedToDecrypt
   \<and> map_of (messageMaps (callback_resume toy_subtle example_conv
                 (example_pending (js ''aGsK'') (js ''AQIDBAUGBwgJCgsM''))
                 (window_mounted (js ''alice''))) 0) (js ''k1'')
       = Some ((example_message (js ''aGsK'') (js ''AQIDBAUGBwgJCgsM''))\<lparr>msg_text := Some failed_to_decrypt\<rparr>)
   \<and> decryptedText (MessageItem toy_subtle (\<lambda>u. Some 7)
         (example_chat_message (js ''aGsK'') (js ''AQIDBAUGBwgJCgsM'')) (js ''alice'') (js ''bob''))
       = Some decryption_failed"
proof -
  let ?p = "example_pending (js ''aGsK'') (js ''AQIDBAUGBwgJCgsM'')"
  let ?m = "example_chat_message (js ''aGsK'') (js ''AQIDBAUGBwgJCgsM'')"
  note t = tampered_message_rejected [where crypto = toy_subtle and K = 7
      and nonce = example_nonce and P = "js ''hi''" and p = ?p
      and st = "window_mounted (js ''alice'')" and m = ?m and user = "js ''alice''"
      and ct_text = "js ''aGsK''" and iv_text = "js ''AQIDBAUGBwgJCgsM''"
      and getSharedKey = "\<lambda>u. Some 7" and partner' = "js ''bob''"
      and conv = example_conv]
  note t9 = t [where n = 9 and e = FailedToDecrypt]
  note t9' = t [where n = 9 and e = OperationError]
  note t95 = t [where n = 95 and e = FailedToDecrypt]
  from t9 have enc: "encryptMessage toy_subtle 7 example_nonce (js ''hi'')
      = Inr (js ''aGkK'', js ''AQIDBAUGBwgJCgsM'')"
    by (simp only: toy_encrypt_hi example_nonce_b64)
  from t9 toy_rejects_flipped_ciphertext
  have c: "decryptMessage toy_subtle 7 (js ''aGsK'') (js ''AQIDBAUGBwgJCgsM'') = Inl FailedToDecrypt"
    "decryptMessage_part002 toy_subtle 7 (js ''aGsK'') (js ''AQIDBAUGBwgJCgsM'') = Inl OperationError"
    by (simp_all only: toy_flipped_ciphertext example_nonce_b64 simp_thms)
  from t95 toy_rejects_flipped_nonce
  have n: "decryptMessage toy_subtle 7 (js ''aGkK'') (js ''AQIDBAUGBwgJCguM'') = Inl FailedToDecrypt"
    by (simp only: toy_flipped_nonce toy_encrypt_hi simp_thms)
  have pend: "p_sharedKey ?p = 7" "p_ct ?p = js ''aGsK''" "p_iv ?p = js ''AQIDBAUGBwgJCgsM''"
    "p_run ?p = 0" "p_msgData ?p = example_message (js ''aGsK'') (js ''AQIDBAUGBwgJCgsM'')"
    "msg_id (example_message (js ''aGsK'') (js ''AQIDBAUGBwgJCgsM'')) = js ''k1''"
    by (simp_all add: example_pending_def example_message_def)
  have prem: "decryptMessage toy_subtle (p_sharedKey ?p) (p_ct ?p) (p_iv ?p) = Inl FailedToDecrypt"
    using c(1) by (simp only: pend)
  note resume = t9 [THEN conjunct2, THEN conjunct2, THEN conjunct2, THEN conjunct2,
      THEN conjunct2, THEN conjunct1, THEN mp, OF prem, THEN conjunct2]
  have w: "map_of (messageMaps (callback_resume toy_subtle example_conv ?p
                 (window_mounted (js ''alice''))) 0) (js ''k1'')
       = Some ((example_message (js ''aGsK'') (js ''AQIDBAUGBwgJCgsM''))\<lparr>msg_text := Some failed_to_decrypt\<rparr>)"
    using resume by (simp only: pend)
  have msg: "isFile ?m \<noteq> Some True \<and> sender ?m \<noteq> js ''alice'' \<and> ct ?m = Some (js ''aGsK'')
      \<and> iv ?m = Some (js ''AQIDBAUGBwgJCgsM'') \<and> js ''aGsK'' \<noteq> [] \<and> js ''AQIDBAUGBwgJCgsM'' \<noteq> []
      \<and> (\<lambda>u. Some (7 :: byte)) (sender ?m) = Some 7
      \<and> decryptMessage_part002 toy_subtle 7 (js ''aGsK'') (js ''AQIDBAUGBwgJCgsM'') = Inl OperationError"
    using c(2) by (simp add: example_chat_message_def js_def)
  note item = t9' [THEN conjunct2, THEN conjunct2, THEN conjunct2, THEN conjunct2,
      THEN conjunct2, THEN conjunct2, THEN mp, OF msg]
  have i: "decryptedText (MessageItem toy_subtle (\<lambda>u. Some 7) ?m (js ''alice'') (js ''bob''))
       = Some decryption_failed"
    by (rule item)
  from enc c n w i show ?thesis
    by (intro conjI)
qed

text \<open>
  C2 as stated fails on the base64 text itself: of \<^verbatim>\<open>"Cw=="\<close>, the ciphertext of the
  empty message under the stand-in provider, the second character carries two bits of
  the byte and four bits that \<^verbatim>\<open>atob\<close> drops. Flipping bit 6 of that character gives
  \<^verbatim>\<open>"C7=="\<close>, which decodes to the same byte, and \<^verbatim>\<open>decryptMessage\<close> returns the
  plaintext.
\<close>

theorem unused_bits_counterexample:
  "encryptMessage toy_subtle 7 example_nonce [] = Inr (js ''Cw=='', js ''AQIDBAUGBwgJCgsM'')
   \<and> (js ''Cw=='')[1 := (js ''Cw=='' ! 1) XOR 0x40] = js ''C7==''
   \<and> js ''C7=='' \<noteq> js ''Cw==''
   \<and> decryptMessage toy_subtle 7 (js ''C7=='') (js ''AQIDBAUGBwgJCgsM'') = Inr []"
proof -
  have enc: "encryptMessage toy_subtle 7 example_nonce [] = Inr (js ''Cw=='', js ''AQIDBAUGBwgJCgsM'')"
    by (simp only: encryptMessage_eq toy_encrypt_empty example_nonce_b64)
  have nonce: "b64ToArrayBuffer (js ''AQIDBAUGBwgJCgsM'') = Inr example_nonce"
    using b64ToArrayBuffer_b64encode [of example_nonce] by (simp only: example_nonce_b64)
  have plain: "decrypt toy_subtle 7 example_nonce [11] = Some []"
    by (simp add: toy_subtle_def xor_tag_def example_nonce_def)
  have empty_text: "arrayBufferToText [] = []"
    by (simp add: arrayBufferToText_def utf8_init_def)
  have dec: "decryptMessage toy_subtle 7 (js ''C7=='') (js ''AQIDBAUGBwgJCgsM'') = Inr []"
    by (simp add: decryptMessage_def decryptMessage_part002_def nonce atob_C7 plain empty_text)
  have diff: "js ''C7=='' \<noteq> js ''Cw==''"
    by (simp add: js_def)
  from enc one_bit_C7 diff dec show ?thesis
    by (intro conjI)
qed

section \<open>Changing the channel while a callback is waiting\<close>

lemma feed_other_channel:
  assumes "chatId c \<noteq> chat"
  shows "feed conv chat msg k (selectChat c st) = selectChat c st"
proof -
  let ?st = "st\<lparr>currentChat := Some \<lparr>partner = username c, session_id = chatId c\<rparr>,
                 mobileSidebarOpen := False\<rparr>"
  have "listening (messagesEffect (messagesCleanup ?st)) = None
      \<or> listening (messagesEffect (messagesCleanup ?st))
          = Some \<lparr>partner = username c, session_id = chatId c\<rparr>"
    by (simp add: messagesEffect_def messagesCleanup_def Let_def)
  then have "listening (selectChat c st) = None
      \<or> listening (selectChat c st) = Some \<lparr>partner = username c, session_id = chatId c\<rparr>"
    by (simp add: selectChat_def afterSetCurrentChat_def Let_def listening_persistEffect)
  with assms show ?thesis
    by (auto simp: feed_def)
qed

text \<open>
  C6. A callback of the previous channel applied after the channel was changed, in
  \<^verbatim>\<open>ChatWindow.tsx\<close>: "alice" has the channel of "bob" open; the feed delivers an
  encrypted message of "bob", and the callback waits for its decryption; "carol" is
  selected, which unregisters the listener and registers one on the channel of "carol",
  with a new, empty map, and no message is shown; then the decryption comes back, and
  the message of "bob" is shown while the contact is "carol".
\<close>

theorem late_callback_after_switch:
  "w_messages (window_run toy_subtle conv example_window
      [Deliver (Some (example_message (js ''aGkK'') (js ''AQIDBAUGBwgJCgsM''))) (js ''k1''),
       SetContact (Some example_carol)]) = []
   \<and> w_contact (window_run toy_subtle conv example_window
      [Deliver (Some (example_message (js ''aGkK'') (js ''AQIDBAUGBwgJCgsM''))) (js ''k1''),
       SetContact (Some example_carol), Resume 0]) = Some example_carol
   \<and> active (window_run toy_subtle conv example_window
      [Deliver (Some (example_message (js ''aGkK'') (js ''AQIDBAUGBwgJCgsM''))) (js ''k1''),
       SetContact (Some example_carol), Resume 0]) = Some 1
   \<and> messageMaps (window_run toy_subtle conv example_window
      [Deliver (Some (example_message (js ''aGkK'') (js ''AQIDBAUGBwgJCgsM''))) (js ''k1''),
       SetContact (Some example_carol), Resume 0]) 1 = []
   \<and> w_messages (window_run toy_subtle conv example_window
      [Deliver (Some (example_message (js ''aGkK'') (js ''AQIDBAUGBwgJCgsM''))) (js ''k1''),
       SetContact (Some example_carol), Resume 0])
     = [(example_message (js ''aGkK'') (js ''AQIDBAUGBwgJCgsM''))\<lparr>msg_text := Some (js ''hi'')\<rparr>]"
proof -
  have d: "decryptMessage toy_subtle 7 (js ''aGkK'') (js ''AQIDBAUGBwgJCgsM'') = Inr (js ''hi'')"
    by (simp add: decryptMessage_def toy_decrypt_hi)
  have ne: "js ''aGkK'' \<noteq> []" "js ''AQIDBAUGBwgJCgsM'' \<noteq> []" "js ''bob'' \<noteq> []"
    by (simp_all add: js_def)
  show ?thesis
    by (simp add: window_run_def example_window_eq window_mounted_def windowEffect_def
        callback_start_def callback_resume_def callback_finish_def example_message_def
        example_carol_def d ne Let_def array_sort_def)
qed

end
